theory Spec2Isabelle
  imports Complex_Main
begin

section \<open>Sliding-window inference and merge engine of the tokenization repairer\<close>

text \<open>
  The development embeds \<^verbatim>\<open>src/trt/api/__init__.py\<close> (class
  \<^verbatim>\<open>TokenizationRepairer\<close>): the window geometry fixed in \<^verbatim>\<open>__init__\<close>, the planning
  and batching loop of \<^verbatim>\<open>_repair_text_raw\<close>, \<^verbatim>\<open>_merge_inference_results\<close>,
  \<^verbatim>\<open>_inference_result_to_str\<close> and \<^verbatim>\<open>repair_text\<close>.

  Python exceptions are values of \<open>py_error\<close>; a computation that may raise returns
  \<open>py_error + 'a\<close> with \<open>Inl\<close> for the exception. An \<^verbatim>\<open>assert\<close> that fails is
  \<open>Inl AssertionError\<close>. Lengths and offsets are \<open>nat\<close> (they come from \<^verbatim>\<open>len\<close>,
  \<^verbatim>\<open>enumerate\<close> and the window planner), token ids, labels and the batch size are
  Python integers (\<open>int\<close>), logits and log-probabilities are only copied, never computed
  with, and are \<open>real\<close>.
\<close>

subsection \<open>Exceptions and sequence operations\<close>

datatype py_error =
  AssertionError | IndexError | KeyError | ValueError | AttributeError | TypeError
  | MatcherError

text \<open>A list comprehension whose body may raise: evaluated left to right, the first
  exception wins.\<close>

fun collect :: "('a \<Rightarrow> py_error + 'b) \<Rightarrow> 'a list \<Rightarrow> py_error + 'b list" where
  "collect f [] = Inr []"
| "collect f (x # xs) =
     (case f x of
        Inl e \<Rightarrow> Inl e
      | Inr y \<Rightarrow> (case collect f xs of Inl e \<Rightarrow> Inl e | Inr ys \<Rightarrow> Inr (y # ys)))"

text \<open>\<^verbatim>\<open>xs[a:b]\<close> for non-negative \<open>a\<close> and \<open>b\<close> (empty when \<open>b \<le> a\<close>).\<close>

definition slice :: "'a list \<Rightarrow> nat \<Rightarrow> nat \<Rightarrow> 'a list" where
  "slice xs a b = take (b - a) (drop a xs)"

text \<open>\<^verbatim>\<open>xs[1:-1]\<close>: the sequence without its first and last element.\<close>

definition strip_markers :: "'a list \<Rightarrow> 'a list" where
  "strip_markers xs = butlast (tl xs)"

text \<open>\<^verbatim>\<open>xs[i:j]\<close> for Python integers: a negative index counts from the end, and both
  ends are clipped to the sequence.\<close>

definition py_index :: "nat \<Rightarrow> int \<Rightarrow> nat" where
  "py_index n i = (if i < 0 then nat (max 0 (int n + i)) else min n (nat i))"

definition py_slice :: "'a list \<Rightarrow> int \<Rightarrow> int \<Rightarrow> 'a list" where
  "py_slice xs i j = slice xs (py_index (length xs) i) (py_index (length xs) j)"

text \<open>\<^verbatim>\<open>s.replace(" ", "")\<close>.\<close>

definition remove_spaces :: "string \<Rightarrow> string" where
  "remove_spaces s = filter (\<lambda>c. c \<noteq> CHR '' '') s"

text \<open>\<^verbatim>\<open>range(0, n, step)\<close> for a positive step.\<close>

definition range_step :: "nat \<Rightarrow> nat \<Rightarrow> nat list" where
  "range_step n step = map (\<lambda>k. k * step) [0 ..< (n + step - 1) div step]"

subsection \<open>Window geometry\<close>

text \<open>
  \<^verbatim>\<open>__init__\<close>, lines 178-180. \<open>max_length\<close> is
  \<^verbatim>\<open>max_num_embeddings - 2\<close>, taken here as a natural number.
  \<^verbatim>\<open>math.ceil(0.75 * max_length)\<close> and \<^verbatim>\<open>math.floor((max_length - window_size) / 2)\<close>
  are computed in floating point by the source; \<open>0.75\<close> and every product and quotient
  involved are exact in binary floating point for any length below \<open>2 ^ 50\<close>, so the two
  values are the integer ceiling of \<open>3 * max_length / 4\<close> and the integer floor of the
  halved difference.
\<close>

definition window_size_of :: "nat \<Rightarrow> nat" where
  "window_size_of max_length = (3 * max_length + 3) div 4"

definition context_size_of :: "nat \<Rightarrow> nat" where
  "context_size_of max_length = (max_length - window_size_of max_length) div 2"

text \<open>
  Modelled from the spec: \<^verbatim>\<open>sliding_windows\<close> of \<^verbatim>\<open>trt.api.utils\<close> is imported by the
  source but its body is not part of it. The specification of the Window Planner gives:
  an ordered list of window-start offsets, consecutive starts spaced by \<open>window_size\<close>,
  the cores tiling the input, the last core possibly shorter, and no window with an empty
  core. The starts are therefore \<open>0, window_size, 2 * window_size, \<dots>\<close> below
  \<open>input_length\<close>. The specification does not say what happens for \<open>window_size = 0\<close>;
  the definition gives no window there, and no theorem below is about that case.
\<close>

definition sliding_windows :: "nat \<Rightarrow> nat \<Rightarrow> nat list" where
  "sliding_windows input_length window_size = range_step input_length window_size"

text \<open>The core region of a window: \<open>[start, start + window_size)\<close>, clipped at the end
  of the input.\<close>

definition core_regions :: "nat \<Rightarrow> nat \<Rightarrow> (nat \<times> nat) list" where
  "core_regions input_length window_size =
     map (\<lambda>start. (start, min (start + window_size) input_length))
       (sliding_windows input_length window_size)"

subsection \<open>Inference results, tokenizer and repairer\<close>

text \<open>
  What the adapter hands back for one window: a classification result (labels and logit
  rows, with a marker position at both ends), a generation result (token ids and their
  log-probabilities, wrapped in the begin and end markers), or, under beam search, a Python
  list of results ranked best first. \<open>NoneResult\<close> is Python's \<^verbatim>\<open>None\<close>, the content of
  a result slot that has not been filled.
\<close>

datatype inference_result =
    SequenceClassificationInferenceResult "int list" "real list list"
  | SequenceGenerationInferenceResult "int list" "real list"
  | BeamList "inference_result list"
  | NoneResult

text \<open>
  The character tokenizer (\<^verbatim>\<open>trt.model.tokenizer\<close>) is not part of the source; the ids
  it gives to the begin marker, the end marker, the unknown token and the space, and its
  decoding function are parameters.
\<close>

record char_tokenizer =
  bos_token_id :: int
  eos_token_id :: int
  unk_token_id :: int
  ws_token_id :: int
  id_to_token :: "int \<Rightarrow> string option"

datatype model_type = EncoderWithHead | Transformer

text \<open>The keyword argument built for a batch (lines 350-354).\<close>

datatype kwargs = NoSpaces "bool list" | InputStrings "string list"

text \<open>Python values, as far as the caller-facing argument and tuple membership need
  them.\<close>

datatype py_value = PyStr string | PyInt int | PyList "py_value list" | PyNone

text \<open>
  The state of a \<^verbatim>\<open>TokenizationRepairer\<close> after \<^verbatim>\<open>__init__\<close>, together with the
  collaborators whose code is outside the source: the model's \<^verbatim>\<open>inference\<close> (the
  adapter, with the fixed \<^verbatim>\<open>inference_kwargs\<close> folded in),
  \<^verbatim>\<open>match_token_ids_ignoring_space_and_unk\<close>, \<^verbatim>\<open>nlp.clean_sequence\<close> and
  \<^verbatim>\<open>tokenization_repair.repair_whitespace\<close>. The tokenizer attributes exist only for a
  model of type \<open>Transformer\<close> (lines 163-173).
\<close>

record repairer =
  cfg_model_type :: model_type
  max_length :: nat
  window_size :: nat
  context_size :: nat
  tokenizer :: "char_tokenizer option"
  inference :: "string list \<Rightarrow> kwargs \<Rightarrow> inference_result list"
  match_token_ids :: "int list \<Rightarrow> string \<Rightarrow> string \<Rightarrow> string \<Rightarrow> py_error + (int \<times> int)"
  clean_sequence :: "py_value \<Rightarrow> py_error + string"
  repair_whitespace :: "string \<Rightarrow> int list \<Rightarrow> py_error + string"

text \<open>\<^verbatim>\<open>__init__\<close>: the tokenizer is kept for a transformer only, and the window geometry
  is derived from the context budget.\<close>

definition init ::
  "model_type \<Rightarrow> nat \<Rightarrow> char_tokenizer
   \<Rightarrow> (string list \<Rightarrow> kwargs \<Rightarrow> inference_result list)
   \<Rightarrow> (int list \<Rightarrow> string \<Rightarrow> string \<Rightarrow> string \<Rightarrow> py_error + (int \<times> int))
   \<Rightarrow> (py_value \<Rightarrow> py_error + string)
   \<Rightarrow> (string \<Rightarrow> int list \<Rightarrow> py_error + string) \<Rightarrow> repairer" where
  "init mt ml tok adapter matcher cleaner rw =
     \<lparr> cfg_model_type = mt, max_length = ml,
       window_size = window_size_of ml, context_size = context_size_of ml,
       tokenizer = (case mt of EncoderWithHead \<Rightarrow> None | Transformer \<Rightarrow> Some tok),
       inference = adapter, match_token_ids = matcher, clean_sequence = cleaner,
       repair_whitespace = rw \<rparr>"

subsection \<open>NumPy slice assignment\<close>

text \<open>
  \<^verbatim>\<open>buf[a:b] = vs\<close> on a one-dimensional array, for \<open>a \<le> b\<close>: the slice is clipped to
  the array; the value must have the length of the slice, or length one, in which case it
  is broadcast; anything else raises \<^verbatim>\<open>ValueError\<close>.
\<close>

definition np_broadcast :: "nat \<Rightarrow> 'a list \<Rightarrow> py_error + 'a list" where
  "np_broadcast n vs =
     (if length vs = n then Inr vs
      else if length vs = 1 then Inr (replicate n (hd vs))
      else Inl ValueError)"

definition np_assign :: "'a list \<Rightarrow> nat \<Rightarrow> nat \<Rightarrow> 'a list \<Rightarrow> py_error + 'a list" where
  "np_assign buf a b vs =
     (let lo = min a (length buf); n = min b (length buf) - lo in
      case np_broadcast n vs of
        Inl e \<Rightarrow> Inl e
      | Inr ws \<Rightarrow> Inr (take lo buf @ ws @ drop (lo + n) buf))"

text \<open>
  The same for a slice of \<open>n\<close> rows of a two-dimensional array with \<open>C\<close> columns, assigned
  a list of rows. An empty list is an array of shape \<open>(0)\<close>, which fits only when
  \<open>C = 0\<close>; rows of different lengths do not form an array; rows of common width \<open>w\<close>
  are broadcast along both axes.
\<close>

definition np_rows :: "nat \<Rightarrow> nat \<Rightarrow> real list list \<Rightarrow> py_error + real list list" where
  "np_rows n C src =
     (if src = [] then (if C = 0 then Inr (replicate n []) else Inl ValueError)
      else if \<not> list_all (\<lambda>r. length r = length (hd src)) src then Inl ValueError
      else if (length src = n \<or> length src = 1) \<and> (length (hd src) = C \<or> length (hd src) = 1)
      then Inr (map (\<lambda>r. if length r = C then r else replicate C (hd r))
                  (if length src = n then src else replicate n (hd src)))
      else Inl ValueError)"

definition np_assign_rows ::
  "real list list \<Rightarrow> nat \<Rightarrow> nat \<Rightarrow> nat \<Rightarrow> real list list \<Rightarrow> py_error + real list list" where
  "np_assign_rows buf C a b src =
     (let lo = min a (length buf); n = min b (length buf) - lo in
      case np_rows n C src of
        Inl e \<Rightarrow> Inl e
      | Inr rows \<Rightarrow> Inr (take lo buf @ rows @ drop (lo + n) buf))"

subsection \<open>The Result Merger: \<^verbatim>\<open>_merge_inference_results\<close>\<close>

text \<open>The classification loop (lines 207-212), with the enumeration index \<open>i\<close> and the
  two buffers as state.\<close>

fun merge_classification_loop ::
  "nat \<Rightarrow> nat \<Rightarrow> nat \<Rightarrow> nat \<Rightarrow> (inference_result \<times> nat) list
   \<Rightarrow> int list \<times> real list list \<Rightarrow> py_error + (int list \<times> real list list)" where
  "merge_classification_loop ws cs C i [] acc = Inr acc"
| "merge_classification_loop ws cs C i ((ir, window) # rest) (mp, ml) =
     (case ir of
        SequenceClassificationInferenceResult preds lgts \<Rightarrow>
          (let start_idx = (if i = 0 then 0 else cs) in
           case np_assign mp window (window + ws)
                  (slice (strip_markers preds) start_idx (start_idx + ws)) of
             Inl e \<Rightarrow> Inl e
           | Inr mp' \<Rightarrow>
               (case np_assign_rows ml C window (window + ws)
                       (slice (strip_markers lgts) start_idx (start_idx + ws)) of
                  Inl e \<Rightarrow> Inl e
                | Inr ml' \<Rightarrow> merge_classification_loop ws cs C (Suc i) rest (mp', ml')))
      | _ \<Rightarrow> Inl AttributeError)"

text \<open>\<^verbatim>\<open>len(inference_results[0].logits[0])\<close> (line 206).\<close>

definition num_classes :: "inference_result list \<Rightarrow> py_error + nat" where
  "num_classes irs =
     (case irs of
        SequenceClassificationInferenceResult preds (row # rows) # rest \<Rightarrow> Inr (length row)
      | SequenceClassificationInferenceResult preds [] # rest \<Rightarrow> Inl IndexError
      | _ \<Rightarrow> Inl AttributeError)"

text \<open>Lines 202-218, for a given list of window starts.\<close>

definition merge_classification ::
  "repairer \<Rightarrow> nat list \<Rightarrow> inference_result list \<Rightarrow> nat \<Rightarrow> py_error + inference_result" where
  "merge_classification r windows irs input_length =
     (if length irs \<noteq> length windows then Inl AssertionError
      else case num_classes irs of
        Inl e \<Rightarrow> Inl e
      | Inr C \<Rightarrow>
          (case merge_classification_loop (window_size r) (context_size r) C 0 (zip irs windows)
                  (replicate input_length (- 1), replicate input_length (replicate C 0)) of
             Inl e \<Rightarrow> Inl e
           | Inr (mp, ml) \<Rightarrow>
               if list_all (\<lambda>p. 0 \<le> p) mp
               then Inr (SequenceClassificationInferenceResult
                           (0 # mp @ [0]) (replicate C 0 # ml @ [replicate C 0]))
               else Inl AssertionError))"

text \<open>Line 223: \<^verbatim>\<open>[irs[0] for irs in inference_results]\<close>. Indexing an empty list
  raises \<^verbatim>\<open>IndexError\<close>; a result object or \<^verbatim>\<open>None\<close> cannot be indexed.\<close>

definition top_beam :: "inference_result \<Rightarrow> py_error + inference_result" where
  "top_beam irs =
     (case irs of
        BeamList (b # bs) \<Rightarrow> Inr b
      | BeamList [] \<Rightarrow> Inl IndexError
      | _ \<Rightarrow> Inl TypeError)"

text \<open>One iteration of the generation loop (lines 233-250): the slice of token ids and
  log-probabilities that the matcher attributes to the core of the window.\<close>

definition window_slice ::
  "repairer \<Rightarrow> string \<Rightarrow> inference_result \<times> nat \<Rightarrow> py_error + (int list \<times> real list)" where
  "window_slice r input_str p =
     (case p of (ir, window) \<Rightarrow>
       (let input_str_left_context = slice input_str (window - context_size r) window;
            input_str_window = slice input_str window (window + window_size r);
            input_str_right_context =
              slice input_str (window + window_size r)
                (window + window_size r + context_size r)
        in case ir of
          SequenceGenerationInferenceResult ids lps \<Rightarrow>
            (if ids = [] then Inl IndexError
             else case tokenizer r of
               None \<Rightarrow> Inl AttributeError
             | Some tok \<Rightarrow>
                 if \<not> (hd ids = bos_token_id tok \<and> last ids = eos_token_id tok)
                 then Inl AssertionError
                 else (case match_token_ids r (strip_markers ids) input_str_left_context
                              input_str_window input_str_right_context of
                         Inl e \<Rightarrow> Inl e
                       | Inr (from_idx, to_idx) \<Rightarrow>
                           Inr (py_slice (strip_markers ids) from_idx to_idx,
                                py_slice (strip_markers lps) from_idx to_idx)))
        | _ \<Rightarrow> Inl AttributeError))"

fun merge_generation_loop ::
  "repairer \<Rightarrow> string \<Rightarrow> (inference_result \<times> nat) list \<Rightarrow> int list \<times> real list
   \<Rightarrow> py_error + (int list \<times> real list)" where
  "merge_generation_loop r input_str [] acc = Inr acc"
| "merge_generation_loop r input_str (p # rest) (merged_token_ids, merged_log_probabilities) =
     (case window_slice r input_str p of
        Inl e \<Rightarrow> Inl e
      | Inr (ids, lps) \<Rightarrow>
          merge_generation_loop r input_str rest
            (merged_token_ids @ ids, merged_log_probabilities @ lps))"

text \<open>Lines 227-258, for a given list of window starts.\<close>

definition merge_generation ::
  "repairer \<Rightarrow> nat list \<Rightarrow> inference_result list \<Rightarrow> string \<Rightarrow> py_error + inference_result" where
  "merge_generation r windows irs input_str =
     (if length irs \<noteq> length windows then Inl AssertionError
      else case merge_generation_loop r input_str (zip irs windows) ([], []) of
        Inl e \<Rightarrow> Inl e
      | Inr (merged_token_ids, merged_log_probabilities) \<Rightarrow>
          (case tokenizer r of
             None \<Rightarrow> Inl AttributeError
           | Some tok \<Rightarrow>
               Inr (SequenceGenerationInferenceResult
                      ([bos_token_id tok] @ merged_token_ids @ [eos_token_id tok])
                      ([0] @ merged_log_probabilities @ [0]))))"

text \<open>
  The whole method. The window planner is a parameter \<open>planner\<close>, so that the merger can
  also be run against a plan other than the one of \<open>sliding_windows\<close>;
  \<open>merge_inference_results\<close> is the method as the source has it.
\<close>

definition merge_inference_results_with ::
  "(nat \<Rightarrow> nat \<Rightarrow> nat list) \<Rightarrow> repairer \<Rightarrow> inference_result list \<Rightarrow> string
   \<Rightarrow> py_error + inference_result" where
  "merge_inference_results_with planner r inference_results input_str =
     (case inference_results of
        [] \<Rightarrow> Inl AssertionError
      | SequenceClassificationInferenceResult preds lgts # rest \<Rightarrow>
          if length inference_results = 1 then Inr (hd inference_results)
          else merge_classification r (planner (length input_str) (window_size r))
                 inference_results (length input_str)
      | first # rest \<Rightarrow>
          (case (case first of
                   BeamList bs \<Rightarrow> collect top_beam inference_results
                 | _ \<Rightarrow> Inr inference_results) of
             Inl e \<Rightarrow> Inl e
           | Inr irs \<Rightarrow>
               if length irs = 1 then Inr (hd irs)
               else merge_generation r (planner (length input_str) (window_size r))
                      irs input_str))"

definition merge_inference_results ::
  "repairer \<Rightarrow> inference_result list \<Rightarrow> string \<Rightarrow> py_error + inference_result" where
  "merge_inference_results = merge_inference_results_with sliding_windows"

subsection \<open>The Output Renderer: \<^verbatim>\<open>_inference_result_to_str\<close>\<close>

text \<open>
  The loop of lines 277-286 with its state \<open>(output_chars, input_str_no_spaces_ptr)\<close>.
  A list element \<open>None\<close> is a token id that the tokenizer does not decode; the
  attributes \<^verbatim>\<open>ws_token_id\<close> and \<^verbatim>\<open>unk_token_id\<close> are read in the loop body only.
\<close>

fun render_tokens ::
  "char_tokenizer option \<Rightarrow> string \<Rightarrow> int list \<Rightarrow> string option list \<times> nat
   \<Rightarrow> py_error + (string option list \<times> nat)" where
  "render_tokens tk nsp [] acc = Inr acc"
| "render_tokens tk nsp (token_id # rest) (output_chars, ptr) =
     (case tk of
        None \<Rightarrow> Inl AttributeError
      | Some tok \<Rightarrow>
          if token_id = ws_token_id tok
          then render_tokens tk nsp rest (output_chars @ [Some '' ''], ptr)
          else if token_id \<noteq> unk_token_id tok
          then render_tokens tk nsp rest (output_chars @ [id_to_token tok token_id], ptr + 1)
          else if ptr < length nsp
          then render_tokens tk nsp rest (output_chars @ [Some [nsp ! ptr]], ptr + 1)
          else Inl IndexError)"

text \<open>\<^verbatim>\<open>"".join(output_chars)\<close>: an element that is not a string raises.\<close>

definition join_chars :: "string option list \<Rightarrow> py_error + string" where
  "join_chars output_chars =
     (case collect (\<lambda>c. case c of None \<Rightarrow> Inl TypeError | Some t \<Rightarrow> Inr t) output_chars of
        Inl e \<Rightarrow> Inl e
      | Inr ts \<Rightarrow> Inr (concat ts))"

definition inference_result_to_str ::
  "repairer \<Rightarrow> inference_result \<Rightarrow> string \<Rightarrow> py_error + string" where
  "inference_result_to_str r inference_result input_str =
     (case inference_result of
        SequenceClassificationInferenceResult preds lgts \<Rightarrow>
          repair_whitespace r input_str (strip_markers preds)
      | SequenceGenerationInferenceResult ids lps \<Rightarrow>
          (let input_str_no_spaces = remove_spaces input_str in
           case render_tokens (tokenizer r) input_str_no_spaces (strip_markers ids) ([], 0) of
             Inl e \<Rightarrow> Inl e
           | Inr (output_chars, ptr) \<Rightarrow>
               (case join_chars output_chars of
                  Inl e \<Rightarrow> Inl e
                | Inr output_str \<Rightarrow>
                    if ptr \<noteq> length input_str_no_spaces then Inl AssertionError
                    else if remove_spaces output_str \<noteq> input_str_no_spaces
                    then Inl AssertionError
                    else Inr output_str))
      | _ \<Rightarrow> Inl AttributeError)"

subsection \<open>Planning and batching: \<^verbatim>\<open>_repair_text_raw\<close>\<close>

text \<open>A batch entry is the tuple \<open>(input_idx, from, to, position)\<close>; the result slots
  \<^verbatim>\<open>all_inference_results\<close> are a dictionary from input index to a list of slots.\<close>

type_synonym batch_entry = "nat \<times> nat \<times> nat \<times> nat"

type_synonym result_slots = "nat \<rightharpoonup> inference_result list"

text \<open>Lines 308-322, with the state \<open>(all_inference_results, batches)\<close>.\<close>

fun plan_loop ::
  "repairer \<Rightarrow> (nat \<times> string) list \<Rightarrow> result_slots \<times> batch_entry list
   \<Rightarrow> result_slots \<times> batch_entry list" where
  "plan_loop r [] st = st"
| "plan_loop r ((input_idx, ipt) # rest) (all_inference_results, batches) =
     (if length ipt \<le> max_length r
      then plan_loop r rest
             (all_inference_results(input_idx \<mapsto> [NoneResult]),
              batches @ [(input_idx, 0, length ipt, 0)])
      else (let windows = sliding_windows (length ipt) (window_size r) in
            plan_loop r rest
              (all_inference_results(input_idx \<mapsto> replicate (length windows) NoneResult),
               batches @
                 map (\<lambda>(i, window).
                        (input_idx, window - context_size r,
                         min (length ipt) (window + window_size r + context_size r), i))
                   (enumerate 0 windows))))"

text \<open>\<^verbatim>\<open>xs[i]\<close> for a non-negative index.\<close>

definition py_get :: "'a list \<Rightarrow> nat \<Rightarrow> py_error + 'a" where
  "py_get xs i = (if i < length xs then Inr (xs ! i) else Inl IndexError)"

text \<open>
  Line 352: \<^verbatim>\<open>[" " not in ipt for ipt in batch]\<close>. The loop variable ranges over the
  entries of \<^verbatim>\<open>batch\<close>, which are tuples of four integers; membership in a tuple
  compares the space string with each component.
\<close>

definition entry_tuple :: "batch_entry \<Rightarrow> py_value list" where
  "entry_tuple e =
     (case e of (input_idx, from_idx, to_idx, position) \<Rightarrow>
        [PyInt (int input_idx), PyInt (int from_idx), PyInt (int to_idx), PyInt (int position)])"

definition no_spaces_flags :: "batch_entry list \<Rightarrow> bool list" where
  "no_spaces_flags batch = map (\<lambda>ipt. PyStr '' '' \<notin> set (entry_tuple ipt)) batch"

definition batch_kwargs :: "repairer \<Rightarrow> batch_entry list \<Rightarrow> string list \<Rightarrow> kwargs" where
  "batch_kwargs r batch batch_sequences =
     (case cfg_model_type r of
        EncoderWithHead \<Rightarrow> NoSpaces (no_spaces_flags batch)
      | Transformer \<Rightarrow> InputStrings (map remove_spaces batch_sequences))"

text \<open>Lines 339-342: the substrings sent to the adapter.\<close>

definition batch_sequences_of :: "string list \<Rightarrow> batch_entry list \<Rightarrow> py_error + string list" where
  "batch_sequences_of inputs batch =
     collect (\<lambda>(input_idx, from_idx, to_idx, position).
                case py_get inputs input_idx of
                  Inl e \<Rightarrow> Inl e
                | Inr ipt \<Rightarrow> Inr (slice ipt from_idx to_idx)) batch"

text \<open>Lines 361-365: each result goes to the slot \<open>(input_idx, position)\<close> of its entry;
  \<^verbatim>\<open>zip\<close> stops at the shorter of the two lists.\<close>

fun store_results ::
  "(batch_entry \<times> inference_result) list \<Rightarrow> result_slots \<Rightarrow> py_error + result_slots" where
  "store_results [] all_inference_results = Inr all_inference_results"
| "store_results (((input_idx, from_idx, to_idx, position), inference_result) # rest)
       all_inference_results =
     (case all_inference_results input_idx of
        None \<Rightarrow> Inl KeyError
      | Some slots \<Rightarrow>
          if position < length slots
          then store_results rest
                 (all_inference_results(input_idx \<mapsto> slots[position := inference_result]))
          else Inl IndexError)"

definition process_batch ::
  "repairer \<Rightarrow> string list \<Rightarrow> batch_entry list \<Rightarrow> result_slots \<Rightarrow> py_error + result_slots" where
  "process_batch r inputs batch all_inference_results =
     (case batch_sequences_of inputs batch of
        Inl e \<Rightarrow> Inl e
      | Inr batch_sequences \<Rightarrow>
          store_results
            (zip batch (inference r batch_sequences (batch_kwargs r batch batch_sequences)))
            all_inference_results)"

text \<open>\<^verbatim>\<open>list(range(0, len(batches), batch_size))\<close>: a zero step is refused by
  \<^verbatim>\<open>range\<close>, a negative step gives the empty range.\<close>

definition batch_starts :: "nat \<Rightarrow> int \<Rightarrow> py_error + nat list" where
  "batch_starts n batch_size =
     (if batch_size = 0 then Inl ValueError
      else if batch_size < 0 then Inr []
      else Inr (range_step n (nat batch_size)))"

text \<open>The loop of lines 337-367 over the batch start indices.\<close>

fun batch_loop ::
  "repairer \<Rightarrow> string list \<Rightarrow> batch_entry list \<Rightarrow> nat \<Rightarrow> nat list \<Rightarrow> result_slots
   \<Rightarrow> py_error + result_slots" where
  "batch_loop r inputs batches batch_size [] all_inference_results = Inr all_inference_results"
| "batch_loop r inputs batches batch_size (batch_idx # rest) all_inference_results =
     (case process_batch r inputs (slice batches batch_idx (batch_idx + batch_size))
             all_inference_results of
        Inl e \<Rightarrow> Inl e
      | Inr all_inference_results' \<Rightarrow>
          batch_loop r inputs batches batch_size rest all_inference_results')"

text \<open>\<^verbatim>\<open>sorted(batches, key=lambda e: e[2] - e[1], reverse=True)\<close>: a stable sort by
  descending substring length.\<close>

definition sort_batches :: "batch_entry list \<Rightarrow> batch_entry list" where
  "sort_batches batches =
     sort_key (\<lambda>(input_idx, from_idx, to_idx, position). - (int to_idx - int from_idx)) batches"

text \<open>The method. The progress bar and the running totals of characters do not enter
  any result and are left out.\<close>

definition repair_text_raw ::
  "repairer \<Rightarrow> string list \<Rightarrow> int \<Rightarrow> bool \<Rightarrow> py_error + inference_result list" where
  "repair_text_raw r inputs batch_size sort_by_length =
     (case plan_loop r (enumerate 0 inputs) (Map.empty, []) of
        (all_inference_results, planned) \<Rightarrow>
          (let batches = (if sort_by_length then sort_batches planned else planned) in
           case batch_starts (length batches) batch_size of
             Inl e \<Rightarrow> Inl e
           | Inr starts \<Rightarrow>
               (case batch_loop r inputs batches (nat batch_size) starts
                       all_inference_results of
                  Inl e \<Rightarrow> Inl e
                | Inr filled \<Rightarrow>
                    collect (\<lambda>i. case filled i of
                                   None \<Rightarrow> Inl KeyError
                                 | Some irs \<Rightarrow>
                                     (case py_get inputs i of
                                        Inl e \<Rightarrow> Inl e
                                      | Inr ipt \<Rightarrow> merge_inference_results r irs ipt))
                      [0 ..< length inputs])))"

subsection \<open>The caller-facing method: \<^verbatim>\<open>repair_text\<close>\<close>

text \<open>Lines 379-386: the assertion on the argument, and the list of inputs it leaves.
  Only the first element of a list is tested for being a string.\<close>

definition validate_inputs :: "py_value \<Rightarrow> py_error + (bool \<times> py_value list)" where
  "validate_inputs inputs =
     (case inputs of
        PyStr s \<Rightarrow> Inr (True, [inputs])
      | PyList (PyStr s # rest) \<Rightarrow> Inr (False, PyStr s # rest)
      | _ \<Rightarrow> Inl AssertionError)"

definition repair_text :: "repairer \<Rightarrow> py_value \<Rightarrow> int \<Rightarrow> bool \<Rightarrow> py_error + py_value" where
  "repair_text r inputs batch_size sort_by_length =
     (case validate_inputs inputs of
        Inl e \<Rightarrow> Inl e
      | Inr (input_is_string, items) \<Rightarrow>
          (case collect (clean_sequence r) items of
             Inl e \<Rightarrow> Inl e
           | Inr cleaned \<Rightarrow>
               (case repair_text_raw r cleaned batch_size sort_by_length of
                  Inl e \<Rightarrow> Inl e
                | Inr inference_results \<Rightarrow>
                    (case collect (\<lambda>(ipt, ir). inference_result_to_str r ir ipt)
                            (zip cleaned inference_results) of
                       Inl e \<Rightarrow> Inl e
                     | Inr outputs \<Rightarrow>
                         if input_is_string
                         then (case outputs of
                                 [] \<Rightarrow> Inl IndexError
                               | out # rest \<Rightarrow> Inr (PyStr out))
                         else Inr (PyList (map PyStr outputs))))))"

subsection \<open>Description of the rendering, position by position\<close>

text \<open>
  The rendering as the specification words it: the pointer into the space-stripped input
  has advanced once for every token before position \<open>j\<close> that is not the space token
  (starting from \<open>p0\<close>), and the token at position \<open>j\<close> is rendered as a space, as the
  input character under the pointer when it is the unknown token, and as its decoding
  otherwise.
\<close>

definition non_space_before :: "char_tokenizer \<Rightarrow> int list \<Rightarrow> nat \<Rightarrow> nat" where
  "non_space_before tok ts j = length (filter (\<lambda>t. t \<noteq> ws_token_id tok) (take j ts))"

definition rendered_token :: "char_tokenizer \<Rightarrow> string \<Rightarrow> nat \<Rightarrow> int list \<Rightarrow> nat \<Rightarrow> string option" where
  "rendered_token tok nsp p0 ts j =
     (if ts ! j = ws_token_id tok then Some '' ''
      else if ts ! j = unk_token_id tok then Some [nsp ! (p0 + non_space_before tok ts j)]
      else id_to_token tok (ts ! j))"

subsection \<open>A concrete configuration\<close>

text \<open>
  A tokenizer with the characters \<open>a\<close> and \<open>b\<close>, an adapter that answers every substring
  with its own tokens (any other character becomes the unknown token), an adapter that
  labels every space for deletion, a matcher that cuts by the lengths of the context
  strings, and a repairer of each type with a context budget of 8 characters. They serve
  as concrete inputs.
\<close>

definition example_tokenizer :: char_tokenizer where
  "example_tokenizer =
     \<lparr> bos_token_id = 0, eos_token_id = 1, unk_token_id = 2, ws_token_id = 3,
       id_to_token = (\<lambda>i. if i = 2 then Some ''<unk>'' else if i = 4 then Some ''a''
                          else if i = 5 then Some ''b'' else None) \<rparr>"

definition example_tokens :: "string \<Rightarrow> int list" where
  "example_tokens s =
     map (\<lambda>c. if c = CHR '' '' then 3 else if c = CHR ''a'' then 4
               else if c = CHR ''b'' then 5 else 2) s"

definition example_generation_adapter :: "string list \<Rightarrow> kwargs \<Rightarrow> inference_result list" where
  "example_generation_adapter seqs kw =
     map (\<lambda>s. SequenceGenerationInferenceResult ([0] @ example_tokens s @ [1])
                 (replicate (length s + 2) 0)) seqs"

definition example_classification_adapter :: "string list \<Rightarrow> kwargs \<Rightarrow> inference_result list" where
  "example_classification_adapter seqs kw =
     map (\<lambda>s. SequenceClassificationInferenceResult
                 ([0] @ map (\<lambda>c. if c = CHR '' '' then 2 else 0) s @ [0])
                 (replicate (length s + 2) [1, 0, 0])) seqs"

definition example_matcher ::
  "int list \<Rightarrow> string \<Rightarrow> string \<Rightarrow> string \<Rightarrow> py_error + (int \<times> int)" where
  "example_matcher ids left_context core right_context =
     Inr (int (length left_context), int (length left_context + length core))"

definition example_cleaner :: "py_value \<Rightarrow> py_error + string" where
  "example_cleaner v = (case v of PyStr s \<Rightarrow> Inr s | _ \<Rightarrow> Inl AttributeError)"

definition example_repair_whitespace :: "string \<Rightarrow> int list \<Rightarrow> py_error + string" where
  "example_repair_whitespace s labels =
     (if length labels = length s
      then Inr (map fst (filter (\<lambda>(c, l). l \<noteq> 2) (zip s labels)))
      else Inl AssertionError)"

definition example_generation_repairer :: repairer where
  "example_generation_repairer =
     init Transformer 8 example_tokenizer example_generation_adapter example_matcher
       example_cleaner example_repair_whitespace"

definition example_classification_repairer :: repairer where
  "example_classification_repairer =
     init EncoderWithHead 8 example_tokenizer example_classification_adapter example_matcher
       example_cleaner example_repair_whitespace"

text \<open>A single result object, as opposed to a list of beams or an empty slot.\<close>

definition is_inference_result :: "inference_result \<Rightarrow> bool" where
  "is_inference_result ir =
     (case ir of
        SequenceClassificationInferenceResult preds lgts \<Rightarrow> True
      | SequenceGenerationInferenceResult ids lps \<Rightarrow> True
      | _ \<Rightarrow> False)"

subsection \<open>The generation merge as the specification words it\<close>



subsection \<open>The classification merge, window by window\<close>

text \<open>
  The vocabulary of the specification of the classification path. A window starting at
  \<open>window\<close> covers the buffer positions of the slice \<open>[window : window + ws]\<close>, clipped to
  the buffer of length \<open>L\<close>.
\<close>

definition covers :: "nat \<Rightarrow> nat \<Rightarrow> nat \<Rightarrow> nat \<Rightarrow> bool" where
  "covers ws L window p \<longleftrightarrow> min window L \<le> p \<and> p < min (window + ws) L"

text \<open>What window \<open>i\<close> copies from a sequence of its result: the two marker positions
  are stripped, then \<open>ws\<close> values are taken from offset 0 for the first window and from
  offset \<open>cs\<close> for every later one.\<close>

definition copied :: "nat \<Rightarrow> nat \<Rightarrow> nat \<Rightarrow> 'a list \<Rightarrow> 'a list" where
  "copied ws cs i xs =
     slice (strip_markers xs) (if i = 0 then 0 else cs) ((if i = 0 then 0 else cs) + ws)"

text \<open>The labels and logit rows that window \<open>i\<close> writes at its start offset: the copied
  values, fitted by NumPy to the length of the slice.\<close>

definition window_values ::
  "nat \<Rightarrow> nat \<Rightarrow> nat \<Rightarrow> nat \<Rightarrow> nat \<times> inference_result \<times> nat
   \<Rightarrow> py_error + (int list \<times> real list list)" where
  "window_values ws cs L C t =
     (case t of
        (i, SequenceClassificationInferenceResult preds lgts, window) \<Rightarrow>
          (case np_broadcast (min (window + ws) L - min window L) (copied ws cs i preds) of
             Inl e \<Rightarrow> Inl e
           | Inr vals \<Rightarrow>
               (case np_rows (min (window + ws) L - min window L) C (copied ws cs i lgts) of
                  Inl e \<Rightarrow> Inl e
                | Inr rows \<Rightarrow> Inr (vals, rows)))
      | _ \<Rightarrow> Inl AttributeError)"

text \<open>The last window, in the order of the loop, whose slice covers position \<open>p\<close>.\<close>

definition last_writer ::
  "nat \<Rightarrow> nat \<Rightarrow> nat \<Rightarrow> (nat \<times> inference_result \<times> nat) list
   \<Rightarrow> (nat \<times> inference_result \<times> nat) option" where
  "last_writer ws L p ts = find (\<lambda>(i, ir, window). covers ws L window p) (rev ts)"

subsection \<open>Concrete window results and window plans\<close>

text \<open>
  The results of the concrete classification adapter for the two windows of the input
  \<open>ab ab ab ab\<close> (length 11, windows starting at 0 and 6, sent with one character of
  context); a result whose core holds the label \<open>-1\<close>; two results with distinguishable
  labels; a window plan whose two windows both cover position 5, and one that leaves
  position 6 uncovered.
\<close>

definition example_result_0 :: inference_result where
  "example_result_0 =
     SequenceClassificationInferenceResult [0, 0, 0, 2, 0, 0, 2, 0, 0]
       [[1, 0, 0], [1, 0, 0], [1, 0, 0], [1, 0, 0], [1, 0, 0], [1, 0, 0], [1, 0, 0],
        [1, 0, 0], [1, 0, 0]]"

definition example_result_1 :: inference_result where
  "example_result_1 =
     SequenceClassificationInferenceResult [0, 2, 0, 0, 2, 0, 0, 0]
       [[1, 0, 0], [1, 0, 0], [1, 0, 0], [1, 0, 0], [1, 0, 0], [1, 0, 0], [1, 0, 0],
        [1, 0, 0]]"

definition example_result_unfilled :: inference_result where
  "example_result_unfilled =
     SequenceClassificationInferenceResult [0, 2, 0, - 1, 2, 0, 0, 0]
       [[1, 0, 0], [1, 0, 0], [1, 0, 0], [1, 0, 0], [1, 0, 0], [1, 0, 0], [1, 0, 0],
        [1, 0, 0]]"

definition example_overlap_0 :: inference_result where
  "example_overlap_0 =
     SequenceClassificationInferenceResult [0, 1, 1, 1, 1, 1, 1, 1, 0]
       [[1, 0, 0], [1, 0, 0], [1, 0, 0], [1, 0, 0], [1, 0, 0], [1, 0, 0], [1, 0, 0],
        [1, 0, 0], [1, 0, 0]]"

definition example_overlap_1 :: inference_result where
  "example_overlap_1 =
     SequenceClassificationInferenceResult [0, 9, 2, 2, 2, 2, 2, 2, 0]
       [[0, 0, 1], [0, 0, 1], [0, 0, 1], [0, 0, 1], [0, 0, 1], [0, 0, 1], [0, 0, 1],
        [0, 0, 1], [0, 0, 1]]"

definition overlapping_planner :: "nat \<Rightarrow> nat \<Rightarrow> nat list" where
  "overlapping_planner input_length ws = [0, 5]"

definition gapped_planner :: "nat \<Rightarrow> nat \<Rightarrow> nat list" where
  "gapped_planner input_length ws = [0, 7]"

subsection \<open>Routing of results, described independently of the batches\<close>

text \<open>The batch entries that the planning loop appends for one input.\<close>

definition window_entries :: "repairer \<Rightarrow> nat \<Rightarrow> string \<Rightarrow> batch_entry list" where
  "window_entries r input_idx ipt =
     (if length ipt \<le> max_length r then [(input_idx, 0, length ipt, 0)]
      else map (\<lambda>(i, window).
                  (input_idx, window - context_size r,
                   min (length ipt) (window + window_size r + context_size r), i))
             (enumerate 0 (sliding_windows (length ipt) (window_size r))))"

text \<open>The slot \<open>(input_idx, position)\<close> an entry is routed to, and the substring it sends
  to the adapter.\<close>

definition entry_key :: "batch_entry \<Rightarrow> nat \<times> nat" where
  "entry_key e = (case e of (input_idx, from_idx, to_idx, position) \<Rightarrow> (input_idx, position))"

definition entry_sequence :: "string list \<Rightarrow> batch_entry \<Rightarrow> string" where
  "entry_sequence inputs e =
     (case e of (input_idx, from_idx, to_idx, position) \<Rightarrow>
        slice (inputs ! input_idx) from_idx to_idx)"

text \<open>
  An order-preserving, deterministic adapter: for every batch, with the keyword arguments
  the engine builds for it, the adapter answers each substring by the same function \<open>f\<close>
  of that substring, in the order of the batch.
\<close>

definition answers_each_sequence :: "repairer \<Rightarrow> (string \<Rightarrow> inference_result) \<Rightarrow> bool" where
  "answers_each_sequence r f \<longleftrightarrow>
     (\<forall>batch seqs. length batch = length seqs
        \<longrightarrow> inference r seqs (batch_kwargs r batch seqs) = map f seqs)"

text \<open>
  The slots after a list of entries has been routed with the answers \<open>g\<close>: slot
  \<open>(i, p)\<close> holds the answer of the last entry with that key, and its previous content
  when there is none. An entry is valid for a dictionary of slots when its slot exists.
\<close>

definition routed_result ::
  "(batch_entry \<Rightarrow> inference_result) \<Rightarrow> batch_entry list \<Rightarrow> nat \<times> nat
   \<Rightarrow> inference_result option" where
  "routed_result g es k = map_of (rev (map (\<lambda>e. (entry_key e, g e)) es)) k"

definition routed ::
  "(batch_entry \<Rightarrow> inference_result) \<Rightarrow> batch_entry list \<Rightarrow> result_slots \<Rightarrow> result_slots" where
  "routed g es slots_of =
     (\<lambda>i. case slots_of i of
            None \<Rightarrow> None
          | Some slots \<Rightarrow>
              Some (map (\<lambda>p. case routed_result g es (i, p) of
                                None \<Rightarrow> slots ! p
                              | Some v \<Rightarrow> v)
                      [0 ..< length slots]))"

definition valid_entries :: "batch_entry list \<Rightarrow> result_slots \<Rightarrow> bool" where
  "valid_entries es slots_of \<longleftrightarrow>
     list_all (\<lambda>e. case slots_of (fst (entry_key e)) of
                      None \<Rightarrow> False
                    | Some slots \<Rightarrow> snd (entry_key e) < length slots) es"

text \<open>The plan of a whole call: all entries in planning order, the empty slots, and the
  slots once every planned entry has been answered.\<close>

definition planned_entries :: "repairer \<Rightarrow> string list \<Rightarrow> batch_entry list" where
  "planned_entries r inputs =
     concat (map (\<lambda>(i, ipt). window_entries r i ipt) (enumerate 0 inputs))"

definition empty_slots :: "repairer \<Rightarrow> string list \<Rightarrow> result_slots" where
  "empty_slots r inputs =
     (\<lambda>i. if i < length inputs
          then Some (replicate (length (window_entries r i (inputs ! i))) NoneResult)
          else None)"

definition routed_slots ::
  "repairer \<Rightarrow> (string \<Rightarrow> inference_result) \<Rightarrow> string list \<Rightarrow> result_slots" where
  "routed_slots r f inputs =
     routed (\<lambda>e. f (entry_sequence inputs e)) (planned_entries r inputs) (empty_slots r inputs)"


text \<open>The answer of the concrete generation adapter to one substring.\<close>

definition example_generation_answer :: "string \<Rightarrow> inference_result" where
  "example_generation_answer s =
     SequenceGenerationInferenceResult ([0] @ example_tokens s @ [1])
       (replicate (length s + 2) 0)"

text \<open>
  Further concrete values: a window result with two labels between its markers, a
  \<open>clean_sequence\<close> that lets any value pass, and an adapter whose answers depend on the
  number of substrings in the batch (a space is labelled for deletion only when the
  substring is alone in its batch).
\<close>

definition example_result_short :: inference_result where
  "example_result_short =
     SequenceClassificationInferenceResult [0, 5, 1, 0]
       [[1, 0, 0], [1, 0, 0], [1, 0, 0], [1, 0, 0]]"


definition example_batch_dependent_adapter ::
  "string list \<Rightarrow> kwargs \<Rightarrow> inference_result list" where
  "example_batch_dependent_adapter seqs kw =
     map (\<lambda>s. SequenceClassificationInferenceResult
                 ([0] @ map (\<lambda>c. if c = CHR '' '' \<and> length seqs = 1 then 2 else 0) s @ [0])
                 (replicate (length s + 2) [1, 0, 0])) seqs"

section \<open>Properties\<close>

subsection \<open>Arithmetic of the window geometry\<close>

lemma window_size_of_pos: "0 < m \<Longrightarrow> 0 < window_size_of m"
  by (simp add: window_size_of_def)

lemma window_size_of_le: "window_size_of m \<le> m"
  by (simp add: window_size_of_def)

lemma range_step_cover:
  fixes n step :: nat
  assumes s: "0 < step"
  shows "n \<le> ((n + step - 1) div step) * step"
proof -
  define q where "q = (n + step - 1) div step"
  have "n + step - 1 = q * step + (n + step - 1) mod step"
    by (simp add: q_def)
  moreover have "(n + step - 1) mod step < step"
    using s by simp
  ultimately have "n + step - 1 < q * step + step" by linarith
  then show ?thesis using s by (simp add: q_def)
qed

lemma range_step_last:
  fixes k step n :: nat
  assumes s: "0 < step" and k: "k < (n + step - 1) div step"
  shows "k * step < n"
proof -
  from k have "Suc k \<le> (n + step - 1) div step" by simp
  then have "Suc k * step \<le> ((n + step - 1) div step) * step"
    by (rule mult_le_mono1)
  also have "\<dots> \<le> n + step - 1" by simp
  finally show ?thesis using s by simp
qed

lemma upt_pieces:
  "concat (map (\<lambda>k. [k * step ..< min (k * step + step) n]) [0 ..< m]) = [0 ..< min (m * step) n]"
proof (induction m)
  case 0
  then show ?case by simp
next
  case (Suc m)
  show ?case
  proof (cases "m * step \<le> n")
    case True
    then have "[0 ..< m * step] @ [m * step ..< min (m * step + step) n]
               = [0 ..< min (m * step + step) n]"
      using upt_add_eq_append [of 0 "m * step" "min (m * step + step) n - m * step"]
      by simp
    with Suc True show ?thesis by (simp add: min_absorb1 add.commute)
  next
    case False
    with Suc show ?thesis by (simp add: min_absorb2)
  qed
qed

lemma core_regions_concat:
  assumes "0 < ws"
  shows "concat (map (\<lambda>(a, b). [a ..< b]) (core_regions n ws)) = [0 ..< n]"
proof -
  have "concat (map (\<lambda>(a, b). [a ..< b]) (core_regions n ws))
        = concat (map (\<lambda>k. [k * ws ..< min (k * ws + ws) n]) [0 ..< (n + ws - 1) div ws])"
    by (simp add: core_regions_def sliding_windows_def range_step_def comp_def)
  also have "\<dots> = [0 ..< min (((n + ws - 1) div ws) * ws) n]"
    by (rule upt_pieces)
  also have "\<dots> = [0 ..< n]"
    using range_step_cover [OF assms, of n] by (simp add: min_absorb2)
  finally show ?thesis .
qed

lemma core_regions_nonempty:
  assumes "0 < ws"
  shows "list_all (\<lambda>(a, b). a < b) (core_regions n ws)"
  using assms range_step_last [of ws _ n]
  by (auto simp: core_regions_def sliding_windows_def range_step_def list_all_iff)

subsection \<open>The window plan tiles the input\<close>

text \<open>
  Claim C2. For every input length and every positive window size (in particular the
  window size \<open>ceil (0.75 * max_length)\<close> of a model with a positive context budget),
  the core regions \<open>[start, min (start + window_size) input_length)\<close> of the planned
  windows, read from left to right, enumerate exactly the positions
  \<open>0, \<dots>, input_length - 1\<close>, each once, so they tile the input without gap or overlap,
  and no core is empty. For \<open>max_length = 800\<close> the window size is 600 and the context
  size is 100, and an input of length 1000 is planned as the two windows starting at 0
  and 600 with cores \<open>[0, 600)\<close> and \<open>[600, 1000)\<close>.
\<close>

theorem core_regions_tile_input:
  "(0 < ws \<longrightarrow>
      concat (map (\<lambda>(a, b). [a ..< b]) (core_regions n ws))
        = [0 ..< n]
      \<and> list_all (\<lambda>(a, b). a < b) (core_regions n ws))
   \<and> (0 < m \<longrightarrow> 0 < window_size_of m)
   \<and> window_size_of 800 = 600 \<and> context_size_of 800 = 100
   \<and> sliding_windows 1000 (window_size_of 800) = [0, 600]
   \<and> core_regions 1000 (window_size_of 800) = [(0, 600), (600, 1000)]"
proof -
  have ws: "window_size_of 800 = 600"
    by (simp add: window_size_of_def)
  have cs: "context_size_of 800 = 100"
    by (simp add: context_size_of_def ws)
  have sw: "sliding_windows 1000 600 = [0, 600]"
    by (simp add: sliding_windows_def range_step_def upt_rec)
  have cr: "core_regions 1000 600 = [(0, 600), (600, 1000)]"
    by (simp add: core_regions_def sw)
  show ?thesis
    using core_regions_concat [of ws n] core_regions_nonempty [of ws n]
      window_size_of_pos [of m]
    by (simp add: ws cs sw cr)
qed

theorem core_regions_tile_input_witness:
  "(0::nat) < 3 \<and> (0::nat) < 4 \<and> window_size_of 4 = 3
   \<and> core_regions 7 (window_size_of 4) = [(0, 3), (3, 6), (6, 7)]
   \<and> concat (map (\<lambda>(a, b). [a ..< b]) (core_regions 7 (window_size_of 4))) = [0 ..< 7]
   \<and> list_all (\<lambda>(a, b). a < b) (core_regions 7 (window_size_of 4))"
proof -
  have ws: "window_size_of 4 = 3"
    by (simp add: window_size_of_def)
  have cr: "core_regions 7 3 = [(0, 3), (3, 6), (6, 7)]"
    by (simp add: core_regions_def sliding_windows_def range_step_def upt_rec)
  show ?thesis
    using core_regions_tile_input [of 3 7 4] by (simp add: ws cr)
qed

subsection \<open>The generation renderer\<close>

lemma map_upt_Cons: "map f [0 ..< Suc n] = f 0 # map (\<lambda>j. f (Suc j)) [0 ..< n]"
proof -
  have "[0 ..< Suc n] = 0 # map Suc [0 ..< n]"
    by (simp add: upt_conv_Cons map_Suc_upt del: upt_Suc)
  then show ?thesis by (simp add: comp_def del: upt_Suc)
qed

lemma non_space_before_Cons:
  "non_space_before tok (t # ts) (Suc j)
   = (if t = ws_token_id tok then 0 else 1) + non_space_before tok ts j"
  by (simp add: non_space_before_def)

lemma rendered_token_Cons:
  "rendered_token tok nsp p0 (t # ts) (Suc j)
   = rendered_token tok nsp (if t = ws_token_id tok then p0 else Suc p0) ts j"
  by (simp add: rendered_token_def non_space_before_Cons)

lemma rendered_tokens_Cons:
  "map (rendered_token tok nsp p0 (t # ts)) [0 ..< length (t # ts)]
   = rendered_token tok nsp p0 (t # ts) 0
     # map (rendered_token tok nsp (if t = ws_token_id tok then p0 else Suc p0) ts)
         [0 ..< length ts]"
proof -
  have "length (t # ts) = Suc (length ts)" by simp
  then show ?thesis
    by (simp only: map_upt_Cons rendered_token_Cons)
qed

lemma render_tokens_step:
  "render_tokens (Some tok) nsp (t # ts) (out0, p0) = Inr res \<Longrightarrow>
     (t = unk_token_id tok \<and> t \<noteq> ws_token_id tok \<longrightarrow> p0 < length nsp)
     \<and> render_tokens (Some tok) nsp ts
          (out0 @ [rendered_token tok nsp p0 (t # ts) 0],
           if t = ws_token_id tok then p0 else Suc p0) = Inr res"
  by (auto simp: rendered_token_def non_space_before_def split: if_splits)

lemma render_tokens_ptr:
  "render_tokens (Some tok) nsp ts (out0, p0) = Inr (out, p) \<Longrightarrow>
     p = p0 + length (filter (\<lambda>t. t \<noteq> ws_token_id tok) ts)"
proof (induction ts arbitrary: out0 p0)
  case Nil
  then show ?case by simp
next
  case (Cons t ts)
  from render_tokens_step [OF Cons.prems]
  have "p = (if t = ws_token_id tok then p0 else Suc p0)
            + length (filter (\<lambda>t. t \<noteq> ws_token_id tok) ts)"
    using Cons.IH by blast
  then show ?case by simp
qed

lemma render_tokens_out:
  "render_tokens (Some tok) nsp ts (out0, p0) = Inr (out, p) \<Longrightarrow>
     out = out0 @ map (rendered_token tok nsp p0 ts) [0 ..< length ts]"
proof (induction ts arbitrary: out0 p0)
  case Nil
  then show ?case by simp
next
  case (Cons t ts)
  from render_tokens_step [OF Cons.prems]
  have "out = (out0 @ [rendered_token tok nsp p0 (t # ts) 0])
              @ map (rendered_token tok nsp (if t = ws_token_id tok then p0 else Suc p0) ts)
                  [0 ..< length ts]"
    using Cons.IH by blast
  then show ?case by (simp only: rendered_tokens_Cons) simp
qed

lemma render_tokens_unk_in_range:
  "render_tokens (Some tok) nsp ts (out0, p0) = Inr (out, p) \<Longrightarrow> j < length ts \<Longrightarrow>
   ts ! j = unk_token_id tok \<Longrightarrow> ts ! j \<noteq> ws_token_id tok \<Longrightarrow>
     p0 + non_space_before tok ts j < length nsp"
proof (induction ts arbitrary: out0 p0 j)
  case Nil
  then show ?case by simp
next
  case (Cons t ts)
  note step = render_tokens_step [OF Cons.prems(1)]
  show ?case
  proof (cases j)
    case 0
    with Cons.prems step show ?thesis by (simp add: non_space_before_def)
  next
    case (Suc k)
    with Cons.prems have k: "k < length ts" "ts ! k = unk_token_id tok" "ts ! k \<noteq> ws_token_id tok"
      by simp_all
    from step have run: "render_tokens (Some tok) nsp ts
          (out0 @ [rendered_token tok nsp p0 (t # ts) 0],
           if t = ws_token_id tok then p0 else Suc p0) = Inr (out, p)" by blast
    from Cons.IH [OF run k] show ?thesis
      by (simp add: Suc non_space_before_Cons split: if_splits)
  qed
qed

text \<open>
  Claim C1. Whenever the generation variant of the renderer returns a string, that
  string without its spaces is the input without its spaces. Moreover the returned string
  is the concatenation of the position-wise renderings, the pointer ends at the length of
  the space-stripped input, and every unknown token (the unknown id being different from
  the space id) is rendered as the input character under the pointer, which is in range:
  the character number \<open>k\<close> of the space-stripped input, where \<open>k\<close> counts the non-space
  tokens before it. The decoding of the unknown id is never consulted.
\<close>

theorem generation_render_preserves_characters:
  assumes "inference_result_to_str r (SequenceGenerationInferenceResult ids lps) input_str
           = Inr output_str"
  shows "remove_spaces output_str = remove_spaces input_str
     \<and> (\<forall>tok. tokenizer r = Some tok \<longrightarrow>
          join_chars (map (rendered_token tok (remove_spaces input_str) 0 (strip_markers ids))
                        [0 ..< length (strip_markers ids)]) = Inr output_str
          \<and> non_space_before tok (strip_markers ids) (length (strip_markers ids))
              = length (remove_spaces input_str)
          \<and> (\<forall>j < length (strip_markers ids).
                strip_markers ids ! j = unk_token_id tok \<and> unk_token_id tok \<noteq> ws_token_id tok
                \<longrightarrow> non_space_before tok (strip_markers ids) j < length (remove_spaces input_str)
                    \<and> rendered_token tok (remove_spaces input_str) 0 (strip_markers ids) j
                        = Some [remove_spaces input_str ! non_space_before tok (strip_markers ids) j]))"
proof -
  define nsp where "nsp = remove_spaces input_str"
  define ts where "ts = strip_markers ids"
  from assms obtain output_chars ptr where
    run: "render_tokens (tokenizer r) nsp ts ([], 0) = Inr (output_chars, ptr)"
    and joined: "join_chars output_chars = Inr output_str"
    and ptr: "ptr = length nsp"
    and same: "remove_spaces output_str = nsp"
    by (auto simp: inference_result_to_str_def nsp_def ts_def Let_def
        split: sum.splits prod.splits if_splits)
  have "join_chars (map (rendered_token tok nsp 0 ts) [0 ..< length ts]) = Inr output_str
        \<and> non_space_before tok ts (length ts) = length nsp
        \<and> (\<forall>j < length ts. ts ! j = unk_token_id tok \<and> unk_token_id tok \<noteq> ws_token_id tok
              \<longrightarrow> non_space_before tok ts j < length nsp
                  \<and> rendered_token tok nsp 0 ts j = Some [nsp ! non_space_before tok ts j])"
    if tk: "tokenizer r = Some tok" for tok
  proof -
    from run tk have run': "render_tokens (Some tok) nsp ts ([], 0) = Inr (output_chars, ptr)"
      by simp
    have "output_chars = map (rendered_token tok nsp 0 ts) [0 ..< length ts]"
      using render_tokens_out [OF run'] by simp
    moreover have "non_space_before tok ts (length ts) = length nsp"
      using render_tokens_ptr [OF run'] ptr by (simp add: non_space_before_def)
    moreover have "non_space_before tok ts j < length nsp
        \<and> rendered_token tok nsp 0 ts j = Some [nsp ! non_space_before tok ts j]"
      if "j < length ts" "ts ! j = unk_token_id tok" "unk_token_id tok \<noteq> ws_token_id tok" for j
      using render_tokens_unk_in_range [OF run' that(1,2)] that
      by (simp add: rendered_token_def)
    ultimately show ?thesis using joined by blast
  qed
  then show ?thesis using same by (simp add: nsp_def ts_def)
qed

theorem generation_render_preserves_characters_witness:
  "inference_result_to_str example_generation_repairer
      (SequenceGenerationInferenceResult [0, 4, 3, 2, 5, 1] [0, 0, 0, 0, 0, 0]) ''ax b''
     = Inr ''a xb''
   \<and> remove_spaces ''a xb'' = remove_spaces ''ax b''
   \<and> tokenizer example_generation_repairer = Some example_tokenizer
   \<and> strip_markers [0, 4, 3, 2, 5, 1] ! 2 = unk_token_id example_tokenizer
   \<and> unk_token_id example_tokenizer \<noteq> ws_token_id example_tokenizer
   \<and> non_space_before example_tokenizer (strip_markers [0, 4, 3, 2, 5, 1]) 2 = 1
   \<and> rendered_token example_tokenizer (remove_spaces ''ax b'') 0
        (strip_markers [0, 4, 3, 2, 5, 1]) 2 = Some ''x''"
proof -
  have run: "inference_result_to_str example_generation_repairer
      (SequenceGenerationInferenceResult [0, 4, 3, 2, 5, 1] [0, 0, 0, 0, 0, 0]) ''ax b''
     = Inr ''a xb''"
    by (simp add: inference_result_to_str_def example_generation_repairer_def init_def
        example_tokenizer_def strip_markers_def remove_spaces_def join_chars_def)
  from generation_render_preserves_characters [OF run] run show ?thesis
    by (simp add: example_generation_repairer_def init_def example_tokenizer_def
        strip_markers_def remove_spaces_def non_space_before_def rendered_token_def)
qed

subsection \<open>Evaluation on concrete inputs\<close>

lemmas example_defs =
  example_generation_repairer_def example_classification_repairer_def init_def
  example_tokenizer_def example_tokens_def example_generation_adapter_def
  example_classification_adapter_def example_matcher_def example_cleaner_def
  example_repair_whitespace_def window_size_of_def context_size_of_def

lemmas engine_defs =
  repair_text_def validate_inputs_def repair_text_raw_def batch_starts_def range_step_def
  sort_batches_def process_batch_def batch_sequences_of_def batch_kwargs_def
  no_spaces_flags_def entry_tuple_def py_get_def slice_def strip_markers_def
  merge_inference_results_def merge_inference_results_with_def
  inference_result_to_str_def remove_spaces_def join_chars_def

subsection \<open>List comprehensions that may raise\<close>



lemma collect_map_Inr: "collect (\<lambda>x. Inr (g x)) xs = Inr (map g xs)"
  by (induction xs) auto

subsection \<open>The flags sent to a classification model\<close>

text \<open>
  Claim C10. For every batch, the list of \<open>no_spaces\<close> flags of line 352 consists of
  \<open>True\<close> only, one per entry: the membership test is made on the entry tuple of four
  integers, none of which equals the space string. For a model of type
  \<open>EncoderWithHead\<close> this list is the keyword argument handed to the adapter, whatever
  the substrings of the batch are.
\<close>

theorem no_spaces_flags_always_true:
  "no_spaces_flags batch = replicate (length batch) True
   \<and> batch_kwargs (r\<lparr>cfg_model_type := EncoderWithHead\<rparr>) batch batch_sequences
       = NoSpaces (replicate (length batch) True)"
proof -
  have "no_spaces_flags batch = map (\<lambda>ipt. True) batch"
    by (auto simp: no_spaces_flags_def entry_tuple_def)
  then have "no_spaces_flags batch = replicate (length batch) True"
    by (simp add: map_replicate_const)
  then show ?thesis by (simp add: batch_kwargs_def)
qed

theorem no_spaces_flags_always_true_witness:
  "batch_sequences_of [''a b''] [(0, 0, 3, 0)] = Inr [''a b'']
   \<and> CHR '' '' \<in> set ''a b''
   \<and> batch_kwargs (example_classification_repairer\<lparr>cfg_model_type := EncoderWithHead\<rparr>)
        [(0, 0, 3, 0)] [''a b''] = NoSpaces [True]"
  using no_spaces_flags_always_true [of "[(0, 0, 3, 0)]" example_classification_repairer "[''a b'']"]
  by (simp add: batch_sequences_of_def py_get_def slice_def)

subsection \<open>Inputs that fit the context budget\<close>

lemma merge_single:
  "is_inference_result ir \<Longrightarrow> merge_inference_results r [ir] s = Inr ir"
  by (cases ir) (simp_all add: merge_inference_results_def merge_inference_results_with_def
      is_inference_result_def)

lemma merge_single_beam:
  "merge_inference_results r [BeamList (b # bs)] s = Inr b"
  by (simp add: merge_inference_results_def merge_inference_results_with_def top_beam_def)

lemma range_step_one: "0 < b \<Longrightarrow> range_step (Suc 0) b = [0]"
  by (simp add: range_step_def)

lemma raw_single:
  assumes bs: "0 < batch_size" and len: "length ipt \<le> max_length r"
    and inf: "inference r [ipt] (batch_kwargs r [(0, 0, length ipt, 0)] [ipt]) = [ir]"
    and ir: "is_inference_result ir"
  shows "repair_text_raw r [ipt] batch_size sort_by_length = Inr [ir]"
proof -
  have plan: "plan_loop r (enumerate 0 [ipt]) (Map.empty, [])
      = ([0 \<mapsto> [NoneResult]], [(0, 0, length ipt, 0)])"
    using len by simp
  have sorted: "sort_batches [(0, 0, length ipt, 0)] = [(0, 0, length ipt, 0)]"
    by (simp add: sort_batches_def)
  have starts: "batch_starts (Suc 0) batch_size = Inr [0]"
    using bs by (simp add: batch_starts_def range_step_one)
  have sl: "slice [(0::nat, 0::nat, length ipt, 0::nat)] 0 (nat batch_size)
      = [(0, 0, length ipt, 0)]"
    using bs by (simp add: slice_def)
  have seqs: "batch_sequences_of [ipt] [(0, 0, length ipt, 0)] = Inr [ipt]"
    by (simp add: batch_sequences_of_def py_get_def slice_def)
  have proc: "process_batch r [ipt] [(0, 0, length ipt, 0)] [0 \<mapsto> [NoneResult]]
      = Inr [0 \<mapsto> [ir]]"
    by (simp add: process_batch_def seqs inf)
  have loop: "batch_loop r [ipt] [(0, 0, length ipt, 0)] (nat batch_size) [0]
      [0 \<mapsto> [NoneResult]] = Inr [0 \<mapsto> [ir]]"
    by (simp add: sl proc)
  show ?thesis
    using len
    by (simp add: repair_text_raw_def sorted starts loop py_get_def merge_single [OF ir]
        del: batch_loop.simps)
qed

text \<open>
  Claim C3. An input of length at most \<open>max_length\<close> (the empty input included) adds
  exactly one batch entry, the window \<open>[0, length)\<close> at position 0, and one result slot.
  The merger returns a single result object unchanged, and the top candidate of a single
  ranked list unchanged. End to end: for a positive batch size, when the adapter answers
  the one-element batch with the result object \<open>ir\<close>, \<open>_repair_text_raw\<close> returns
  exactly \<open>[ir]\<close>.
\<close>

theorem single_window_identity:
  assumes "length ipt \<le> max_length r"
  shows "plan_loop r [(input_idx, ipt)] (all_inference_results, batches)
           = (all_inference_results(input_idx \<mapsto> [NoneResult]),
              batches @ [(input_idx, 0, length ipt, 0)])
     \<and> (is_inference_result ir \<longrightarrow> merge_inference_results r [ir] ipt = Inr ir)
     \<and> merge_inference_results r [BeamList (ir # beams)] ipt = Inr ir
     \<and> (0 < batch_size \<and> is_inference_result ir
          \<and> inference r [ipt] (batch_kwargs r [(0, 0, length ipt, 0)] [ipt]) = [ir]
        \<longrightarrow> repair_text_raw r [ipt] batch_size sort_by_length = Inr [ir])"
  using assms merge_single [of ir r ipt] merge_single_beam [of r ir beams ipt]
    raw_single [of batch_size ipt r ir sort_by_length]
  by simp

theorem single_window_identity_witness:
  "length '''' \<le> max_length example_generation_repairer
   \<and> plan_loop example_generation_repairer [(0, '''')] (Map.empty, [])
       = ([0 \<mapsto> [NoneResult]], [(0, 0, 0, 0)])
   \<and> is_inference_result (SequenceGenerationInferenceResult [0, 1] [0, 0])
   \<and> merge_inference_results example_generation_repairer
        [SequenceGenerationInferenceResult [0, 1] [0, 0]] ''''
       = Inr (SequenceGenerationInferenceResult [0, 1] [0, 0])
   \<and> inference example_generation_repairer ['''']
        (batch_kwargs example_generation_repairer [(0, 0, length '''', 0)] [''''])
       = [SequenceGenerationInferenceResult [0, 1] [0, 0]]
   \<and> repair_text_raw example_generation_repairer [''''] 16 True
       = Inr [SequenceGenerationInferenceResult [0, 1] [0, 0]]"
proof -
  have len: "length '''' \<le> max_length example_generation_repairer"
    by simp
  have inf: "inference example_generation_repairer ['''']
        (batch_kwargs example_generation_repairer [(0, 0, length '''', 0)] [''''])
       = [SequenceGenerationInferenceResult [0, 1] [0, 0]]"
    by (simp add: example_generation_repairer_def init_def example_generation_adapter_def
        example_tokens_def)
  have isr: "is_inference_result (SequenceGenerationInferenceResult [0, 1] [0, 0])"
    by (simp add: is_inference_result_def)
  from single_window_identity [OF len, of 0 Map.empty "[]"
      "SequenceGenerationInferenceResult [0, 1] [0, 0]" "[]" 16 True] inf isr
  show ?thesis by simp
qed

subsection \<open>The shape of the answer of \<^verbatim>\<open>repair_text\<close>\<close>









subsection \<open>The generation merge\<close>






lemma example_generation_geometry:
  "window_size example_generation_repairer = 6"
  "context_size example_generation_repairer = 1"
  "max_length example_generation_repairer = 8"
  "tokenizer example_generation_repairer = Some example_tokenizer"
  "match_token_ids example_generation_repairer = example_matcher"
  by (simp_all add: example_defs)





subsection \<open>The classification merge\<close>

lemma np_broadcast_length: "np_broadcast n vs = Inr vals \<Longrightarrow> length vals = n"
  by (auto simp: np_broadcast_def split: if_splits)

lemma np_rows_length: "np_rows n C src = Inr rows \<Longrightarrow> length rows = n"
  by (auto simp: np_rows_def split: if_splits)

lemma splice_length:
  "length vals = n \<Longrightarrow> lo + n \<le> length buf \<Longrightarrow>
     length (take lo buf @ vals @ drop (lo + n) buf) = length buf"
  by simp

lemma splice_nth:
  assumes "length vals = n" "lo + n \<le> length buf" "p < length buf"
  shows "(take lo buf @ vals @ drop (lo + n) buf) ! p
         = (if lo \<le> p \<and> p < lo + n then vals ! (p - lo) else buf ! p)"
proof -
  consider "p < lo" | "lo \<le> p" "p < lo + n" | "lo + n \<le> p" by linarith
  then show ?thesis
  proof cases
    case 1
    with assms show ?thesis by (simp add: nth_append)
  next
    case 2
    then have "p - lo < n" by linarith
    with 2 assms show ?thesis by (simp add: nth_append)
  next
    case 3
    then have a: "\<not> p < lo" "\<not> p - lo < n" "lo + n + (p - lo - n) = p" by linarith+
    have "(take lo buf @ vals @ drop (lo + n) buf) ! p = drop (lo + n) buf ! (p - lo - n)"
      using assms a(1,2) by (simp add: nth_append min_absorb2)
    also have "\<dots> = buf ! (lo + n + (p - lo - n))"
      using assms by (intro nth_drop) simp
    finally show ?thesis using 3 a(3) by simp
  qed
qed

lemma slice_bounds: "min a L + (min (a + ws) L - min a L) \<le> (L::nat)"
  by simp

text \<open>One iteration of the loop, in terms of the values it writes.\<close>

lemma merge_classification_loop_step:
  assumes "length mp = L" "length ml = L"
  shows "merge_classification_loop ws cs C i ((ir, window) # rest) (mp, ml)
     = (case window_values ws cs L C (i, ir, window) of
          Inl e \<Rightarrow> Inl e
        | Inr (vals, rows) \<Rightarrow>
            merge_classification_loop ws cs C (Suc i) rest
              (take (min window L) mp @ vals
                 @ drop (min window L + (min (window + ws) L - min window L)) mp,
               take (min window L) ml @ rows
                 @ drop (min window L + (min (window + ws) L - min window L)) ml))"
  using assms
  by (cases ir)
     (simp_all add: window_values_def np_assign_def np_assign_rows_def copied_def Let_def
        split: sum.splits)

lemma covers_min: "covers ws L window p \<Longrightarrow> min window L = window \<and> p < L"
  by (auto simp: covers_def min_def split: if_splits)

lemma find_snoc:
  "find P (xs @ [y]) = (case find P xs of Some z \<Rightarrow> Some z | None \<Rightarrow> if P y then Some y else None)"
  by (induction xs) auto

lemma last_writer_Cons:
  "last_writer ws L p (t # ts)
   = (case last_writer ws L p ts of
        Some w \<Rightarrow> Some w
      | None \<Rightarrow> (case t of (i, ir, window) \<Rightarrow>
                   if covers ws L window p then Some t else None))"
  by (cases t) (simp add: last_writer_def find_snoc split: option.splits)

lemma merge_classification_loop_values:
  assumes "merge_classification_loop ws cs C i0 ps (mp0, ml0) = Inr (mp, ml)"
    and "length mp0 = L" "length ml0 = L"
  shows "length mp = L \<and> length ml = L
     \<and> list_all (\<lambda>t. \<exists>v. window_values ws cs L C t = Inr v) (enumerate i0 ps)"
  using assms
proof (induction ps arbitrary: i0 mp0 ml0)
  case Nil
  then show ?case by simp
next
  case (Cons x ps)
  obtain ir window where x: "x = (ir, window)" by (cases x)
  from Cons.prems obtain vals rows where
    v: "window_values ws cs L C (i0, ir, window) = Inr (vals, rows)"
    and run: "merge_classification_loop ws cs C (Suc i0) ps
        (take (min window L) mp0 @ vals
           @ drop (min window L + (min (window + ws) L - min window L)) mp0,
         take (min window L) ml0 @ rows
           @ drop (min window L + (min (window + ws) L - min window L)) ml0) = Inr (mp, ml)"
    by (auto simp: x merge_classification_loop_step [of mp0 L ml0] split: sum.splits
        simp del: merge_classification_loop.simps)
  have lv: "length vals = min (window + ws) L - min window L"
    and lr: "length rows = min (window + ws) L - min window L"
    using v by (auto simp: window_values_def np_broadcast_length np_rows_length
        split: inference_result.splits sum.splits)
  have l1: "length (take (min window L) mp0 @ vals
           @ drop (min window L + (min (window + ws) L - min window L)) mp0) = L"
    using splice_length [OF lv, of "min window L" mp0] Cons.prems(2) slice_bounds [of window L ws]
    by simp
  have l2: "length (take (min window L) ml0 @ rows
           @ drop (min window L + (min (window + ws) L - min window L)) ml0) = L"
    using splice_length [OF lr, of "min window L" ml0] Cons.prems(3) slice_bounds [of window L ws]
    by simp
  from Cons.IH [OF run l1 l2] v show ?case
    by (simp add: x)
qed

text \<open>The loop invariant: a position holds what the last window covering it wrote, and
  its initial value when no window covers it.\<close>

lemma merge_classification_loop_last_writer:
  assumes "merge_classification_loop ws cs C i0 ps (mp0, ml0) = Inr (mp, ml)"
    and "length mp0 = L" "length ml0 = L" "p < L"
  shows "case last_writer ws L p (enumerate i0 ps) of
           None \<Rightarrow> mp ! p = mp0 ! p \<and> ml ! p = ml0 ! p
         | Some (i, ir, window) \<Rightarrow>
             (\<exists>vals rows. window_values ws cs L C (i, ir, window) = Inr (vals, rows)
                \<and> mp ! p = vals ! (p - window) \<and> ml ! p = rows ! (p - window))"
  using assms
proof (induction ps arbitrary: i0 mp0 ml0)
  case Nil
  then show ?case by (simp add: last_writer_def)
next
  case (Cons x ps)
  obtain ir window where x: "x = (ir, window)" by (cases x)
  define lo where "lo = min window L"
  define n where "n = min (window + ws) L - min window L"
  from Cons.prems obtain vals rows where
    v: "window_values ws cs L C (i0, ir, window) = Inr (vals, rows)"
    and run: "merge_classification_loop ws cs C (Suc i0) ps
        (take lo mp0 @ vals @ drop (lo + n) mp0, take lo ml0 @ rows @ drop (lo + n) ml0)
        = Inr (mp, ml)"
    by (auto simp: x lo_def n_def merge_classification_loop_step [of mp0 L ml0]
        split: sum.splits simp del: merge_classification_loop.simps)
  have lv: "length vals = n" and lr: "length rows = n"
    using v by (auto simp: n_def window_values_def np_broadcast_length np_rows_length
        split: inference_result.splits sum.splits)
  have bound: "lo + n \<le> L"
    by (simp add: lo_def n_def)
  have l1: "length (take lo mp0 @ vals @ drop (lo + n) mp0) = L"
    using splice_length [OF lv, of lo mp0] Cons.prems(2) bound by simp
  have l2: "length (take lo ml0 @ rows @ drop (lo + n) ml0) = L"
    using splice_length [OF lr, of lo ml0] Cons.prems(3) bound by simp
  note IH = Cons.IH [OF run l1 l2 Cons.prems(4)]
  have cov: "covers ws L window p \<longleftrightarrow> lo \<le> p \<and> p < lo + n"
    using bound by (auto simp: covers_def lo_def n_def)
  have n1: "(take lo mp0 @ vals @ drop (lo + n) mp0) ! p
      = (if covers ws L window p then vals ! (p - lo) else mp0 ! p)"
    using splice_nth [OF lv, of lo mp0 p] bound Cons.prems(2,4) cov by simp
  have n2: "(take lo ml0 @ rows @ drop (lo + n) ml0) ! p
      = (if covers ws L window p then rows ! (p - lo) else ml0 ! p)"
    using splice_nth [OF lr, of lo ml0 p] bound Cons.prems(3,4) cov by simp
  show ?case
  proof (cases "last_writer ws L p (enumerate (Suc i0) ps)")
    case (Some w)
    with IH show ?thesis
      by (simp add: x last_writer_Cons)
  next
    case None
    with IH have same: "mp ! p = (take lo mp0 @ vals @ drop (lo + n) mp0) ! p"
      "ml ! p = (take lo ml0 @ rows @ drop (lo + n) ml0) ! p"
      by simp_all
    show ?thesis
    proof (cases "covers ws L window p")
      case True
      then have "lo = window" using covers_min by (simp add: lo_def)
      with True None same n1 n2 v show ?thesis
        by (simp add: x last_writer_Cons)
    next
      case False
      with None same n1 n2 show ?thesis
        by (simp add: x last_writer_Cons)
    qed
  qed
qed

lemma merge_with_classification:
  "rest \<noteq> [] \<Longrightarrow>
     merge_inference_results_with planner r
       (SequenceClassificationInferenceResult preds lgts # rest) input_str
     = merge_classification r (planner (length input_str) (window_size r))
         (SequenceClassificationInferenceResult preds lgts # rest) (length input_str)"
  by (simp add: merge_inference_results_with_def)

lemma merge_classification_Inr:
  assumes "merge_classification r windows irs L = Inr res"
  obtains C mp ml where
    "length irs = length windows"
    "num_classes irs = Inr C"
    "merge_classification_loop (window_size r) (context_size r) C 0 (zip irs windows)
       (replicate L (- 1), replicate L (replicate C 0)) = Inr (mp, ml)"
    "list_all (\<lambda>p. 0 \<le> p) mp"
    "res = SequenceClassificationInferenceResult (0 # mp @ [0])
             (replicate C 0 # ml @ [replicate C 0])"
  using assms
  by (auto simp: merge_classification_def split: if_splits sum.splits prod.splits)

lemma merge_classification_positions:
  assumes "merge_classification r windows irs L = Inr res" and "p < L"
  shows "\<exists>C mp ml i ir window vals rows.
      res = SequenceClassificationInferenceResult (0 # mp @ [0])
              (replicate C 0 # ml @ [replicate C 0])
      \<and> length mp = L \<and> length ml = L \<and> num_classes irs = Inr C
      \<and> last_writer (window_size r) L p (enumerate 0 (zip irs windows)) = Some (i, ir, window)
      \<and> window_values (window_size r) (context_size r) L C (i, ir, window) = Inr (vals, rows)
      \<and> mp ! p = vals ! (p - window) \<and> ml ! p = rows ! (p - window)"
proof -
  from assms(1) obtain C mp ml where
    nc: "num_classes irs = Inr C"
    and run: "merge_classification_loop (window_size r) (context_size r) C 0 (zip irs windows)
       (replicate L (- 1), replicate L (replicate C 0)) = Inr (mp, ml)"
    and filled: "list_all (\<lambda>p. 0 \<le> p) mp"
    and res: "res = SequenceClassificationInferenceResult (0 # mp @ [0])
             (replicate C 0 # ml @ [replicate C 0])"
    by (rule merge_classification_Inr)
  have len: "length mp = L" "length ml = L"
    using merge_classification_loop_values [OF run, of L] by simp_all
  note lw = merge_classification_loop_last_writer [OF run _ _ assms(2), simplified]
  have "0 \<le> mp ! p"
    using filled len assms(2) by (simp add: list_all_length)
  moreover have "replicate L (- 1 :: int) ! p = - 1"
    using assms(2) by simp
  ultimately obtain i ir window where
    w: "last_writer (window_size r) L p (enumerate 0 (zip irs windows)) = Some (i, ir, window)"
    using lw by (cases "last_writer (window_size r) L p (enumerate 0 (zip irs windows))") auto
  with lw obtain vals rows where
    "window_values (window_size r) (context_size r) L C (i, ir, window) = Inr (vals, rows)"
    "mp ! p = vals ! (p - window)" "ml ! p = rows ! (p - window)"
    by auto
  with res len nc w show ?thesis by blast
qed

text \<open>With the plan of \<open>sliding_windows\<close> exactly one window covers a position.\<close>

lemma find_unique:
  assumes "x \<in> set xs" "P x" "\<forall>y \<in> set xs. P y \<longrightarrow> y = x"
  shows "find P xs = Some x"
  using assms
proof (induction xs)
  case Nil
  then show ?case by simp
next
  case (Cons a xs)
  show ?case
  proof (cases "P a")
    case True
    with Cons.prems(3) have "a = x" by simp
    with True show ?thesis by simp
  next
    case False
    with Cons.prems(1,2) have "x \<in> set xs" by auto
    moreover from Cons.prems(3) have "\<forall>y \<in> set xs. P y \<longrightarrow> y = x" by simp
    ultimately have "find P xs = Some x" using Cons.IH Cons.prems(2) by blast
    with False show ?thesis by simp
  qed
qed

lemma sliding_windows_nth:
  "i < length (sliding_windows L ws) \<Longrightarrow> sliding_windows L ws ! i = i * ws"
  by (simp add: sliding_windows_def range_step_def)

lemma sliding_windows_start_less:
  "0 < ws \<Longrightarrow> i < length (sliding_windows L ws) \<Longrightarrow> i * ws < L"
  using range_step_last [of ws i L] by (simp add: sliding_windows_def range_step_def)

lemma same_window_le:
  fixes i j ws p :: nat
  assumes "p < i * ws + ws" "j * ws \<le> p"
  shows "j \<le> i"
proof (rule ccontr)
  assume "\<not> j \<le> i"
  then have "Suc i \<le> j" by simp
  then have "Suc i * ws \<le> j * ws" by (rule mult_le_mono1)
  then have "i * ws + ws \<le> j * ws" by (simp add: add.commute)
  with assms show False by linarith
qed

lemma same_window:
  fixes i j ws p :: nat
  assumes "i * ws \<le> p" "p < i * ws + ws" "j * ws \<le> p" "p < j * ws + ws"
  shows "i = j"
  using same_window_le [OF assms(2,3)] same_window_le [OF assms(4,1)] by simp

lemma last_writer_sliding:
  assumes i: "i < length irs" and len: "length irs = length (sliding_windows L ws)"
    and p: "i * ws \<le> p" "p < min (i * ws + ws) L"
  shows "last_writer ws L p (enumerate 0 (zip irs (sliding_windows L ws)))
         = Some (i, irs ! i, i * ws)"
proof -
  let ?ts = "enumerate 0 (zip irs (sliding_windows L ws))"
  have n: "length ?ts = length irs" using len by simp
  have nth: "?ts ! j = (j, irs ! j, j * ws)" if "j < length irs" for j
    using that len by (simp add: nth_enumerate_eq sliding_windows_nth)
  have "?ts ! i \<in> set ?ts"
    using i n by (intro nth_mem) simp
  then have mem: "(i, irs ! i, i * ws) \<in> set (rev ?ts)"
    using nth [OF i] by simp
  have cov: "covers ws L (i * ws) p"
    using p by (auto simp: covers_def)
  have uniq: "y = (i, irs ! i, i * ws)"
    if y: "y \<in> set (rev ?ts)" and c: "(case y of (j, ir, window) \<Rightarrow> covers ws L window p)" for y
  proof -
    from y have "y \<in> set ?ts" by simp
    then obtain j where "j < length ?ts" "?ts ! j = y"
      unfolding in_set_conv_nth by blast
    with n have j: "j < length irs" "y = ?ts ! j" by simp_all
    with nth have yj: "y = (j, irs ! j, j * ws)" by simp
    with c have cj: "covers ws L (j * ws) p" by simp
    then have "min (j * ws) L = j * ws" "p < L" using covers_min by auto
    with cj have "j * ws \<le> p" "p < j * ws + ws" by (auto simp: covers_def)
    with p have "i = j" using same_window [of i ws p j] by simp
    with yj show ?thesis by simp
  qed
  show ?thesis
    unfolding last_writer_def
  proof (rule find_unique [OF mem])
    show "case (i, irs ! i, i * ws) of (j, ir, window) \<Rightarrow> covers ws L window p"
      using cov by simp
    show "\<forall>y\<in>set (rev ?ts). (case y of (j, ir, window) \<Rightarrow> covers ws L window p)
        \<longrightarrow> y = (i, irs ! i, i * ws)"
      using uniq by blast
  qed
qed

lemma window_values_lengths:
  "window_values ws cs L C (i, ir, window) = Inr (vals, rows) \<Longrightarrow>
     length vals = min (window + ws) L - min window L
     \<and> length rows = min (window + ws) L - min window L"
  by (auto simp: window_values_def np_broadcast_length np_rows_length
      split: inference_result.splits sum.splits)

lemma slice_nth: "k < length (slice xs a b) \<Longrightarrow> slice xs a b ! k = xs ! (a + k)"
proof -
  assume k: "k < length (slice xs a b)"
  then have "k < length xs - a" "k < b - a" by (simp_all add: slice_def)
  then have "a \<le> length xs" "k < b - a" by linarith+
  then show ?thesis by (simp add: slice_def)
qed

lemma slice_length: "length (slice xs a b) = min (b - a) (length xs - a)"
  by (simp add: slice_def)

lemma merge_classification_cores:
  assumes ws: "0 < window_size r"
    and ok: "merge_classification r (sliding_windows L (window_size r)) irs L = Inr res"
  shows "\<exists>C mp ml.
      num_classes irs = Inr C
      \<and> res = SequenceClassificationInferenceResult (0 # mp @ [0])
                (replicate C 0 # ml @ [replicate C 0])
      \<and> length mp = L \<and> length ml = L
      \<and> length irs = length (sliding_windows L (window_size r))
      \<and> (\<forall>i < length irs.
            window_values (window_size r) (context_size r) L C
              (i, irs ! i, sliding_windows L (window_size r) ! i)
            = Inr (slice mp (sliding_windows L (window_size r) ! i)
                     (sliding_windows L (window_size r) ! i + window_size r),
                   slice ml (sliding_windows L (window_size r) ! i)
                     (sliding_windows L (window_size r) ! i + window_size r)))"
proof -
  let ?ws = "window_size r" and ?cs = "context_size r"
  let ?sw = "sliding_windows L ?ws"
  from ok obtain C mp ml where
    len: "length irs = length ?sw"
    and nc: "num_classes irs = Inr C"
    and run: "merge_classification_loop ?ws ?cs C 0 (zip irs ?sw)
       (replicate L (- 1), replicate L (replicate C 0)) = Inr (mp, ml)"
    and res: "res = SequenceClassificationInferenceResult (0 # mp @ [0])
             (replicate C 0 # ml @ [replicate C 0])"
    by (rule merge_classification_Inr)
  note vals = merge_classification_loop_values [OF run, of L, simplified]
  have lmp: "length mp = L" and lml: "length ml = L" using vals by simp_all
  have core: "window_values ?ws ?cs L C (i, irs ! i, ?sw ! i)
      = Inr (slice mp (?sw ! i) (?sw ! i + ?ws), slice ml (?sw ! i) (?sw ! i + ?ws))"
    if i: "i < length irs" for i
  proof -
    have swi: "?sw ! i = i * ?ws" using i len by (simp add: sliding_windows_nth)
    have start: "i * ?ws < L" using sliding_windows_start_less [OF ws] i len by simp
    have "enumerate 0 (zip irs ?sw) ! i = (i, irs ! i, ?sw ! i)"
      using i len by (simp add: nth_enumerate_eq)
    moreover have "i < length (enumerate 0 (zip irs ?sw))"
      using i len by simp
    ultimately have "(i, irs ! i, ?sw ! i) \<in> set (enumerate 0 (zip irs ?sw))"
      using nth_mem [of i "enumerate 0 (zip irs ?sw)"] by simp
    with vals obtain vals' rows' where
      v: "window_values ?ws ?cs L C (i, irs ! i, i * ?ws) = Inr (vals', rows')"
      by (auto simp: list_all_iff swi)
    from window_values_lengths [OF v] start
    have lv: "length vals' = min (i * ?ws + ?ws) L - i * ?ws"
      and lr: "length rows' = min (i * ?ws + ?ws) L - i * ?ws"
      by (simp_all add: min_absorb1)
    have at: "mp ! (i * ?ws + k) = vals' ! k \<and> ml ! (i * ?ws + k) = rows' ! k"
      if k: "k < min (i * ?ws + ?ws) L - i * ?ws" for k
    proof -
      have pw: "i * ?ws + k < min (i * ?ws + ?ws) L"
        using k by linarith
      then have pL: "i * ?ws + k < L"
        by simp
      have lw: "last_writer ?ws L (i * ?ws + k) (enumerate 0 (zip irs ?sw))
          = Some (i, irs ! i, i * ?ws)"
        using last_writer_sliding [OF i len _ pw] by simp
      from merge_classification_loop_last_writer [OF run _ _ pL] lw v
      show ?thesis by simp
    qed
    have sl: "min (i * ?ws + ?ws - i * ?ws) (L - i * ?ws) = min (i * ?ws + ?ws) L - i * ?ws"
      by simp
    have "slice mp (i * ?ws) (i * ?ws + ?ws) = vals'"
    proof (rule nth_equalityI)
      show "length (slice mp (i * ?ws) (i * ?ws + ?ws)) = length vals'"
        using lmp lv sl by (simp only: slice_length)
      fix k assume "k < length (slice mp (i * ?ws) (i * ?ws + ?ws))"
      then show "slice mp (i * ?ws) (i * ?ws + ?ws) ! k = vals' ! k"
        using at [of k] lmp sl by (simp only: slice_nth slice_length)
    qed
    moreover have "slice ml (i * ?ws) (i * ?ws + ?ws) = rows'"
    proof (rule nth_equalityI)
      show "length (slice ml (i * ?ws) (i * ?ws + ?ws)) = length rows'"
        using lml lr sl by (simp only: slice_length)
      fix k assume "k < length (slice ml (i * ?ws) (i * ?ws + ?ws))"
      then show "slice ml (i * ?ws) (i * ?ws + ?ws) ! k = rows' ! k"
        using at [of k] lml sl by (simp only: slice_nth slice_length)
    qed
    ultimately show ?thesis using v swi by simp
  qed
  with nc res lmp lml len show ?thesis by blast
qed

lemma example_classification_geometry:
  "window_size example_classification_repairer = 6"
  "context_size example_classification_repairer = 1"
  "max_length example_classification_repairer = 8"
  by (simp_all add: example_defs)

lemmas classification_merge_defs =
  merge_inference_results_def merge_inference_results_with_def merge_classification_def
  num_classes_def np_assign_def np_assign_rows_def np_broadcast_def np_rows_def slice_def
  strip_markers_def

lemma example_sliding_windows:
  "sliding_windows (length ''ab ab ab ab'') 6 = [0, 6]"
  by (simp add: sliding_windows_def range_step_def upt_rec)

lemma example_merge:
  "merge_inference_results example_classification_repairer
     [example_result_0, example_result_1] ''ab ab ab ab''
   = Inr (SequenceClassificationInferenceResult [0, 0, 0, 2, 0, 0, 2, 0, 0, 2, 0, 0, 0]
            [[0, 0, 0], [1, 0, 0], [1, 0, 0], [1, 0, 0], [1, 0, 0], [1, 0, 0], [1, 0, 0],
             [1, 0, 0], [1, 0, 0], [1, 0, 0], [1, 0, 0], [1, 0, 0], [0, 0, 0]])"
  by (simp add: example_result_0_def example_result_1_def classification_merge_defs
      example_classification_geometry example_sliding_windows [simplified])

lemma example_window_values:
  "window_values 6 1 11 3 (0, example_result_0, 0)
   = Inr ([0, 0, 2, 0, 0, 2],
          [[1, 0, 0], [1, 0, 0], [1, 0, 0], [1, 0, 0], [1, 0, 0], [1, 0, 0]])"
  "window_values 6 1 11 3 (1, example_result_1, 6)
   = Inr ([0, 0, 2, 0, 0], [[1, 0, 0], [1, 0, 0], [1, 0, 0], [1, 0, 0], [1, 0, 0]])"
  "window_values 6 1 11 3 (1, example_overlap_1, 5)
   = Inr ([2, 2, 2, 2, 2, 2],
          [[0, 0, 1], [0, 0, 1], [0, 0, 1], [0, 0, 1], [0, 0, 1], [0, 0, 1]])"
  by (simp_all add: window_values_def copied_def example_result_0_def example_result_1_def
      example_overlap_1_def np_broadcast_def np_rows_def slice_def strip_markers_def)

lemma example_overlap_merge:
  "merge_inference_results_with overlapping_planner example_classification_repairer
     [example_overlap_0, example_overlap_1] ''ab ab ab ab''
   = Inr (SequenceClassificationInferenceResult [0, 1, 1, 1, 1, 1, 2, 2, 2, 2, 2, 2, 0]
            [[0, 0, 0], [1, 0, 0], [1, 0, 0], [1, 0, 0], [1, 0, 0], [1, 0, 0],
             [0, 0, 1], [0, 0, 1], [0, 0, 1], [0, 0, 1], [0, 0, 1], [0, 0, 1],
             [0, 0, 0]])"
  by (simp add: example_overlap_0_def example_overlap_1_def overlapping_planner_def
      classification_merge_defs example_classification_geometry)

text \<open>
  Claim C4. In a classification merge of more than one window result (with a positive
  window size), whenever the merger returns, the result is the label buffer between two
  labels 0 and the logit buffer between two zero rows, both buffers have the length of the
  input, there is one result per planned window, and for every window \<open>i\<close> the slice of
  each buffer at the window's start offset is exactly what that window writes: its result
  without the two marker positions, \<open>window_size\<close> values from offset 0 for \<open>i = 0\<close> and
  from offset \<open>context_size\<close> for \<open>i > 0\<close>, fitted to the slice.
\<close>

theorem classification_merge_copies_cores:
  assumes "0 < window_size r" and "rest \<noteq> []"
    and "merge_inference_results r (SequenceClassificationInferenceResult preds lgts # rest)
           input_str = Inr res"
  shows "\<exists>C mp ml.
      num_classes (SequenceClassificationInferenceResult preds lgts # rest) = Inr C
      \<and> res = SequenceClassificationInferenceResult (0 # mp @ [0])
                (replicate C 0 # ml @ [replicate C 0])
      \<and> length mp = length input_str \<and> length ml = length input_str
      \<and> length (SequenceClassificationInferenceResult preds lgts # rest)
          = length (sliding_windows (length input_str) (window_size r))
      \<and> (\<forall>i < length (SequenceClassificationInferenceResult preds lgts # rest).
            window_values (window_size r) (context_size r) (length input_str) C
              (i, (SequenceClassificationInferenceResult preds lgts # rest) ! i,
               sliding_windows (length input_str) (window_size r) ! i)
            = Inr (slice mp (sliding_windows (length input_str) (window_size r) ! i)
                     (sliding_windows (length input_str) (window_size r) ! i + window_size r),
                   slice ml (sliding_windows (length input_str) (window_size r) ! i)
                     (sliding_windows (length input_str) (window_size r) ! i + window_size r)))"
proof -
  from assms(2,3) have "merge_classification r
      (sliding_windows (length input_str) (window_size r))
      (SequenceClassificationInferenceResult preds lgts # rest) (length input_str) = Inr res"
    by (simp add: merge_inference_results_def merge_with_classification)
  from merge_classification_cores [OF assms(1) this] show ?thesis .
qed

theorem classification_merge_copies_cores_witness:
  "0 < window_size example_classification_repairer
   \<and> merge_inference_results example_classification_repairer
        [example_result_0, example_result_1] ''ab ab ab ab''
       = Inr (SequenceClassificationInferenceResult [0, 0, 0, 2, 0, 0, 2, 0, 0, 2, 0, 0, 0]
            [[0, 0, 0], [1, 0, 0], [1, 0, 0], [1, 0, 0], [1, 0, 0], [1, 0, 0], [1, 0, 0],
             [1, 0, 0], [1, 0, 0], [1, 0, 0], [1, 0, 0], [1, 0, 0], [0, 0, 0]])
   \<and> sliding_windows (length ''ab ab ab ab'') (window_size example_classification_repairer)
       = [0, 6]
   \<and> window_values 6 1 11 3 (0, example_result_0, 0)
       = Inr (slice [0, 0, 2, 0, 0, 2, 0, 0, 2, 0, 0] 0 6,
              [[1, 0, 0], [1, 0, 0], [1, 0, 0], [1, 0, 0], [1, 0, 0], [1, 0, 0]])
   \<and> window_values 6 1 11 3 (1, example_result_1, 6)
       = Inr (slice [0, 0, 2, 0, 0, 2, 0, 0, 2, 0, 0] 6 12,
              [[1, 0, 0], [1, 0, 0], [1, 0, 0], [1, 0, 0], [1, 0, 0]])"
proof -
  have pos: "0 < window_size example_classification_repairer"
    by (simp add: example_classification_geometry)
  have ne: "[example_result_1] \<noteq> []" by simp
  have run: "merge_inference_results example_classification_repairer
      (SequenceClassificationInferenceResult [0, 0, 0, 2, 0, 0, 2, 0, 0]
         [[1, 0, 0], [1, 0, 0], [1, 0, 0], [1, 0, 0], [1, 0, 0], [1, 0, 0], [1, 0, 0],
          [1, 0, 0], [1, 0, 0]] # [example_result_1]) ''ab ab ab ab''
      = Inr (SequenceClassificationInferenceResult [0, 0, 0, 2, 0, 0, 2, 0, 0, 2, 0, 0, 0]
            [[0, 0, 0], [1, 0, 0], [1, 0, 0], [1, 0, 0], [1, 0, 0], [1, 0, 0], [1, 0, 0],
             [1, 0, 0], [1, 0, 0], [1, 0, 0], [1, 0, 0], [1, 0, 0], [0, 0, 0]])"
    using example_merge by (simp add: example_result_0_def)
  from classification_merge_copies_cores [OF pos ne run] example_merge example_window_values
  show ?thesis
    by (simp add: example_classification_geometry example_sliding_windows [simplified]
        slice_def)
qed

text \<open>
  Claim C5, as amended. In a classification merge of more than one window result, under
  any window plan (also one in which two windows contribute a value to the same position),
  whenever the merger returns a result, every position of the input is covered by at least
  one window and holds the label and the logit row written by the last window, in window
  order, whose slice covers it: in the returned result a later window's value stands in
  place of an earlier one's.
\<close>

theorem later_window_overwrites:
  assumes "rest \<noteq> []"
    and "merge_inference_results_with planner r
           (SequenceClassificationInferenceResult preds lgts # rest) input_str = Inr res"
    and "p < length input_str"
  shows "\<exists>C mp ml i ir window vals rows.
      res = SequenceClassificationInferenceResult (0 # mp @ [0])
              (replicate C 0 # ml @ [replicate C 0])
      \<and> last_writer (window_size r) (length input_str) p
           (enumerate 0 (zip (SequenceClassificationInferenceResult preds lgts # rest)
                           (planner (length input_str) (window_size r))))
          = Some (i, ir, window)
      \<and> window_values (window_size r) (context_size r) (length input_str) C (i, ir, window)
          = Inr (vals, rows)
      \<and> mp ! p = vals ! (p - window) \<and> ml ! p = rows ! (p - window)"
proof -
  from assms(1,2) have "merge_classification r (planner (length input_str) (window_size r))
      (SequenceClassificationInferenceResult preds lgts # rest) (length input_str) = Inr res"
    by (simp add: merge_with_classification)
  from merge_classification_positions [OF this assms(3)] show ?thesis by blast
qed

theorem later_window_overwrites_witness:
  "merge_inference_results_with overlapping_planner example_classification_repairer
     [example_overlap_0, example_overlap_1] ''ab ab ab ab''
     = Inr (SequenceClassificationInferenceResult [0, 1, 1, 1, 1, 1, 2, 2, 2, 2, 2, 2, 0]
            [[0, 0, 0], [1, 0, 0], [1, 0, 0], [1, 0, 0], [1, 0, 0], [1, 0, 0],
             [0, 0, 1], [0, 0, 1], [0, 0, 1], [0, 0, 1], [0, 0, 1], [0, 0, 1],
             [0, 0, 0]])
   \<and> (5::nat) < length ''ab ab ab ab''
   \<and> last_writer 6 11 5 (enumerate 0 (zip [example_overlap_0, example_overlap_1] [0, 5]))
       = Some (1, example_overlap_1, 5)
   \<and> window_values 6 1 11 3 (1, example_overlap_1, 5)
       = Inr ([2, 2, 2, 2, 2, 2],
              [[0, 0, 1], [0, 0, 1], [0, 0, 1], [0, 0, 1], [0, 0, 1], [0, 0, 1]])
   \<and> [1, 1, 1, 1, 1, 2, 2, 2, 2, 2, 2 :: int] ! 5 = [2, 2, 2, 2, 2, 2] ! (5 - 5)"
proof -
  have ne: "[example_overlap_1] \<noteq> []" by simp
  have run: "merge_inference_results_with overlapping_planner example_classification_repairer
      (SequenceClassificationInferenceResult [0, 1, 1, 1, 1, 1, 1, 1, 0]
         [[1, 0, 0], [1, 0, 0], [1, 0, 0], [1, 0, 0], [1, 0, 0], [1, 0, 0], [1, 0, 0],
          [1, 0, 0], [1, 0, 0]] # [example_overlap_1]) ''ab ab ab ab''
      = Inr (SequenceClassificationInferenceResult [0, 1, 1, 1, 1, 1, 2, 2, 2, 2, 2, 2, 0]
            [[0, 0, 0], [1, 0, 0], [1, 0, 0], [1, 0, 0], [1, 0, 0], [1, 0, 0],
             [0, 0, 1], [0, 0, 1], [0, 0, 1], [0, 0, 1], [0, 0, 1], [0, 0, 1],
             [0, 0, 0]])"
    using example_overlap_merge by (simp add: example_overlap_0_def)
  have p: "(5::nat) < length ''ab ab ab ab''" by simp
  have lw: "last_writer 6 11 5 (enumerate 0 (zip [example_overlap_0, example_overlap_1] [0, 5]))
      = Some (1, example_overlap_1, 5)"
    by (simp add: last_writer_def covers_def)
  from later_window_overwrites [OF ne run p] example_overlap_merge lw example_window_values(3)
  show ?thesis by simp
qed

text \<open>The claim as stated fails: with a plan whose windows at 0 and 5 both cover position
  5, the merger returns a result in which position 5 holds the later window's label 2, not
  the earlier window's label 1.\<close>

theorem later_window_overwrites_counterexample:
  "covers 6 11 (overlapping_planner 11 6 ! 0) 5 \<and> covers 6 11 (overlapping_planner 11 6 ! 1) 5
   \<and> window_size example_classification_repairer = 6
   \<and> length ''ab ab ab ab'' = 11
   \<and> merge_inference_results_with overlapping_planner example_classification_repairer
        [example_overlap_0, example_overlap_1] ''ab ab ab ab''
       = Inr (SequenceClassificationInferenceResult [0, 1, 1, 1, 1, 1, 2, 2, 2, 2, 2, 2, 0]
            [[0, 0, 0], [1, 0, 0], [1, 0, 0], [1, 0, 0], [1, 0, 0], [1, 0, 0],
             [0, 0, 1], [0, 0, 1], [0, 0, 1], [0, 0, 1], [0, 0, 1], [0, 0, 1],
             [0, 0, 0]])"
  using example_overlap_merge
  by (simp add: covers_def overlapping_planner_def example_classification_geometry)

lemma multi_window_merge_checks:
  assumes "rest \<noteq> []"
  shows "(length (SequenceClassificationInferenceResult preds lgts # rest)
            \<noteq> length (sliding_windows (length input_str) (window_size r))
          \<longrightarrow> merge_inference_results r
                (SequenceClassificationInferenceResult preds lgts # rest) input_str
              = Inl AssertionError)
     \<and> (merge_inference_results r
            (SequenceClassificationInferenceResult preds lgts # rest) input_str = Inr res
          \<longrightarrow> (\<exists>C mp ml.
                res = SequenceClassificationInferenceResult (0 # mp @ [0])
                        (replicate C 0 # ml @ [replicate C 0])
                \<and> length (SequenceClassificationInferenceResult preds lgts # rest)
                    = length (sliding_windows (length input_str) (window_size r))
                \<and> length mp = length input_str
                \<and> list_all (\<lambda>p. 0 \<le> p) (0 # mp @ [0])))
     \<and> (length (SequenceClassificationInferenceResult preds lgts # rest)
            = length (sliding_windows (length input_str) (window_size r))
          \<and> num_classes (SequenceClassificationInferenceResult preds lgts # rest) = Inr C
          \<and> merge_classification_loop (window_size r) (context_size r) C 0
                (zip (SequenceClassificationInferenceResult preds lgts # rest)
                   (sliding_windows (length input_str) (window_size r)))
                (replicate (length input_str) (- 1),
                 replicate (length input_str) (replicate C 0)) = Inr (mp', ml')
          \<and> - 1 \<in> set mp'
          \<longrightarrow> merge_inference_results r
                (SequenceClassificationInferenceResult preds lgts # rest) input_str
              = Inl AssertionError)
     \<and> (p < length input_str
          \<and> last_writer (window_size r) (length input_str) p
               (enumerate 0 (zip (SequenceClassificationInferenceResult preds lgts # rest)
                               (planner (length input_str) (window_size r)))) = None
          \<longrightarrow> isl (merge_inference_results_with planner r
                     (SequenceClassificationInferenceResult preds lgts # rest) input_str))"
proof (intro conjI impI)
  let ?irs = "SequenceClassificationInferenceResult preds lgts # rest"
  let ?sw = "sliding_windows (length input_str) (window_size r)"
  have m: "merge_inference_results r ?irs input_str
      = merge_classification r ?sw ?irs (length input_str)"
    using assms by (simp add: merge_inference_results_def merge_with_classification)
  {
    assume "length ?irs \<noteq> length ?sw"
    then show "merge_inference_results r ?irs input_str = Inl AssertionError"
      by (simp add: m merge_classification_def)
  next
    assume "merge_inference_results r ?irs input_str = Inr res"
    then have ok: "merge_classification r ?sw ?irs (length input_str) = Inr res"
      by (simp only: m)
    then obtain C mp ml where
      h: "length ?irs = length ?sw"
      "merge_classification_loop (window_size r) (context_size r) C 0 (zip ?irs ?sw)
         (replicate (length input_str) (- 1), replicate (length input_str) (replicate C 0))
       = Inr (mp, ml)"
      "list_all (\<lambda>p. 0 \<le> p) mp"
      "res = SequenceClassificationInferenceResult (0 # mp @ [0])
               (replicate C 0 # ml @ [replicate C 0])"
      by (rule merge_classification_Inr)
    have "length mp = length input_str"
      using merge_classification_loop_values [OF h(2), of "length input_str"] by simp
    with h show "\<exists>C mp ml.
        res = SequenceClassificationInferenceResult (0 # mp @ [0])
                (replicate C 0 # ml @ [replicate C 0])
        \<and> length ?irs = length ?sw
        \<and> length mp = length input_str
        \<and> list_all (\<lambda>p. 0 \<le> p) (0 # mp @ [0])"
      by auto
  next
    assume a: "length ?irs = length ?sw
      \<and> num_classes ?irs = Inr C
      \<and> merge_classification_loop (window_size r) (context_size r) C 0 (zip ?irs ?sw)
            (replicate (length input_str) (- 1),
             replicate (length input_str) (replicate C 0)) = Inr (mp', ml')
      \<and> - 1 \<in> set mp'"
    then have "- 1 \<in> set mp'" by simp
    moreover have "\<not> (0::int) \<le> - 1" by simp
    ultimately have "\<not> list_all (\<lambda>p. 0 \<le> p) mp'"
      unfolding list_all_iff by blast
    with a show "merge_inference_results r ?irs input_str = Inl AssertionError"
      by (simp add: m merge_classification_def)
  next
    assume a: "p < length input_str
      \<and> last_writer (window_size r) (length input_str) p
           (enumerate 0 (zip ?irs (planner (length input_str) (window_size r)))) = None"
    show "isl (merge_inference_results_with planner r ?irs input_str)"
    proof (cases "merge_inference_results_with planner r ?irs input_str")
      case (Inl e)
      then show ?thesis by simp
    next
      case (Inr res')
      with assms have "merge_classification r (planner (length input_str) (window_size r))
          ?irs (length input_str) = Inr res'"
        by (simp add: merge_with_classification)
      from merge_classification_positions [OF this, of p] a show ?thesis
        by auto
    qed
  }
qed

lemma plan_loop_single_input:
  "plan_loop r [(input_idx, input_str)] (start_slots, [])
   = (if length input_str \<le> max_length r
      then (start_slots(input_idx \<mapsto> [NoneResult]), [(input_idx, 0, length input_str, 0)])
      else (start_slots(input_idx \<mapsto>
              replicate (length (sliding_windows (length input_str) (window_size r))) NoneResult),
            map (\<lambda>(i, window).
                   (input_idx, window - context_size r,
                    min (length input_str) (window + window_size r + context_size r), i))
              (enumerate 0 (sliding_windows (length input_str) (window_size r)))))"
  by (simp add: Let_def)

text \<open>
  Claim C6, as amended. The merger counts the windows itself, with \<open>sliding_windows\<close> on
  the input length and the window size (line 202); for an input longer than \<open>max_length\<close>
  this is the number of entries the planning loop creates, for a shorter input the planning
  loop creates one entry whatever \<open>sliding_windows\<close> gives. In a classification merge of
  more than one received result: the merge fails with \<open>AssertionError\<close> when the number
  of results differs from that count; a returned result has one result per counted window
  and only non-negative labels, so it contains no sentinel; when the loop leaves the
  sentinel \<open>-1\<close> anywhere in the label buffer the merge fails with \<open>AssertionError\<close>; and
  under any window plan that leaves a position of the input uncovered the merge fails. A
  single received classification result is returned as it is, with no count check and no
  sentinel check.
\<close>

theorem classification_merge_checks:
  "(rest \<noteq> [] \<longrightarrow>
      (length (SequenceClassificationInferenceResult preds lgts # rest)
            \<noteq> length (sliding_windows (length input_str) (window_size r))
          \<longrightarrow> merge_inference_results r
                (SequenceClassificationInferenceResult preds lgts # rest) input_str
              = Inl AssertionError)
     \<and> (merge_inference_results r
            (SequenceClassificationInferenceResult preds lgts # rest) input_str = Inr res
          \<longrightarrow> (\<exists>C mp ml.
                res = SequenceClassificationInferenceResult (0 # mp @ [0])
                        (replicate C 0 # ml @ [replicate C 0])
                \<and> length (SequenceClassificationInferenceResult preds lgts # rest)
                    = length (sliding_windows (length input_str) (window_size r))
                \<and> length mp = length input_str
                \<and> list_all (\<lambda>p. 0 \<le> p) (0 # mp @ [0])))
     \<and> (length (SequenceClassificationInferenceResult preds lgts # rest)
            = length (sliding_windows (length input_str) (window_size r))
          \<and> num_classes (SequenceClassificationInferenceResult preds lgts # rest) = Inr C
          \<and> merge_classification_loop (window_size r) (context_size r) C 0
                (zip (SequenceClassificationInferenceResult preds lgts # rest)
                   (sliding_windows (length input_str) (window_size r)))
                (replicate (length input_str) (- 1),
                 replicate (length input_str) (replicate C 0)) = Inr (mp', ml')
          \<and> - 1 \<in> set mp'
          \<longrightarrow> merge_inference_results r
                (SequenceClassificationInferenceResult preds lgts # rest) input_str
              = Inl AssertionError)
     \<and> (p < length input_str
          \<and> last_writer (window_size r) (length input_str) p
               (enumerate 0 (zip (SequenceClassificationInferenceResult preds lgts # rest)
                               (planner (length input_str) (window_size r)))) = None
          \<longrightarrow> isl (merge_inference_results_with planner r
                     (SequenceClassificationInferenceResult preds lgts # rest) input_str)))
   \<and> merge_inference_results r [SequenceClassificationInferenceResult preds lgts] input_str
       = Inr (SequenceClassificationInferenceResult preds lgts)
   \<and> (length input_str \<le> max_length r
        \<longrightarrow> snd (plan_loop r [(input_idx, input_str)] (start_slots, []))
            = [(input_idx, 0, length input_str, 0)])
   \<and> (\<not> length input_str \<le> max_length r
        \<longrightarrow> length (snd (plan_loop r [(input_idx, input_str)] (start_slots, [])))
            = length (sliding_windows (length input_str) (window_size r)))"
proof (intro conjI impI)
  assume ne: "rest \<noteq> []"
  note multi = multi_window_merge_checks [OF ne, of preds lgts input_str r res C mp' ml' p planner]
  show "merge_inference_results r
          (SequenceClassificationInferenceResult preds lgts # rest) input_str = Inl AssertionError"
    if "length (SequenceClassificationInferenceResult preds lgts # rest)
            \<noteq> length (sliding_windows (length input_str) (window_size r))"
    using multi that by blast
  show "\<exists>C mp ml.
                res = SequenceClassificationInferenceResult (0 # mp @ [0])
                        (replicate C 0 # ml @ [replicate C 0])
                \<and> length (SequenceClassificationInferenceResult preds lgts # rest)
                    = length (sliding_windows (length input_str) (window_size r))
                \<and> length mp = length input_str
                \<and> list_all (\<lambda>p. 0 \<le> p) (0 # mp @ [0])"
    if "merge_inference_results r
            (SequenceClassificationInferenceResult preds lgts # rest) input_str = Inr res"
    using multi that by blast
  show "merge_inference_results r
          (SequenceClassificationInferenceResult preds lgts # rest) input_str = Inl AssertionError"
    if "length (SequenceClassificationInferenceResult preds lgts # rest)
            = length (sliding_windows (length input_str) (window_size r))
          \<and> num_classes (SequenceClassificationInferenceResult preds lgts # rest) = Inr C
          \<and> merge_classification_loop (window_size r) (context_size r) C 0
                (zip (SequenceClassificationInferenceResult preds lgts # rest)
                   (sliding_windows (length input_str) (window_size r)))
                (replicate (length input_str) (- 1),
                 replicate (length input_str) (replicate C 0)) = Inr (mp', ml')
          \<and> - 1 \<in> set mp'"
    using multi that by blast
  show "isl (merge_inference_results_with planner r
                     (SequenceClassificationInferenceResult preds lgts # rest) input_str)"
    if "p < length input_str
          \<and> last_writer (window_size r) (length input_str) p
               (enumerate 0 (zip (SequenceClassificationInferenceResult preds lgts # rest)
                               (planner (length input_str) (window_size r)))) = None"
    using multi that by blast
next
  show "merge_inference_results r [SequenceClassificationInferenceResult preds lgts] input_str
       = Inr (SequenceClassificationInferenceResult preds lgts)"
    by (simp add: merge_inference_results_def merge_inference_results_with_def)
next
  assume "length input_str \<le> max_length r"
  then show "snd (plan_loop r [(input_idx, input_str)] (start_slots, []))
            = [(input_idx, 0, length input_str, 0)]"
    by (simp only: plan_loop_single_input if_True snd_conv)
next
  assume "\<not> length input_str \<le> max_length r"
  then show "length (snd (plan_loop r [(input_idx, input_str)] (start_slots, [])))
            = length (sliding_windows (length input_str) (window_size r))"
    by (simp only: plan_loop_single_input if_False snd_conv length_map length_enumerate)
qed

theorem classification_merge_checks_witness:
  "merge_inference_results example_classification_repairer
     [example_result_0, example_result_1, example_result_1] ''ab ab ab ab''
     = Inl AssertionError
   \<and> merge_inference_results example_classification_repairer
        [example_result_0, example_result_1] ''ab ab ab ab''
       = Inr (SequenceClassificationInferenceResult [0, 0, 0, 2, 0, 0, 2, 0, 0, 2, 0, 0, 0]
            [[0, 0, 0], [1, 0, 0], [1, 0, 0], [1, 0, 0], [1, 0, 0], [1, 0, 0], [1, 0, 0],
             [1, 0, 0], [1, 0, 0], [1, 0, 0], [1, 0, 0], [1, 0, 0], [0, 0, 0]])
   \<and> list_all (\<lambda>p. 0 \<le> p) [0, 0, 0, 2, 0, 0, 2, 0, 0, 2, 0, 0, 0 :: int]
   \<and> merge_inference_results example_classification_repairer
        [example_result_0, example_result_unfilled] ''ab ab ab ab''
       = Inl AssertionError
   \<and> last_writer 6 11 6 (enumerate 0 (zip [example_result_0, example_result_1]
                                         (gapped_planner 11 6))) = None
   \<and> isl (merge_inference_results_with gapped_planner example_classification_repairer
             [example_result_0, example_result_1] ''ab ab ab ab'')
   \<and> merge_inference_results example_classification_repairer [example_result_0] ''ab ab ab ab''
       = Inr example_result_0
   \<and> snd (plan_loop example_classification_repairer [(0, ''abababa'')] (Map.empty, []))
       = [(0, 0, 7, 0)]
   \<and> length (snd (plan_loop example_classification_repairer [(0, ''ab ab ab ab'')]
                     (Map.empty, []))) = 2"
proof -
  note geo = example_classification_geometry example_sliding_windows [simplified]
  have a: "[example_result_1, example_result_1] \<noteq> []"
    and b: "[example_result_1] \<noteq> []"
    and c: "[example_result_unfilled] \<noteq> []"
    by simp_all
  have gap: "last_writer 6 11 6 (enumerate 0 (zip [example_result_0, example_result_1]
                                         (gapped_planner 11 6))) = None"
    by (simp add: last_writer_def covers_def gapped_planner_def)
  note inst_a = classification_merge_checks [where r = example_classification_repairer
      and input_str = "''ab ab ab ab''"
      and preds = "[0, 0, 0, 2, 0, 0, 2, 0, 0]"
      and lgts = "[[1, 0, 0], [1, 0, 0], [1, 0, 0], [1, 0, 0], [1, 0, 0], [1, 0, 0],
                   [1, 0, 0], [1, 0, 0], [1, 0, 0]]"
      and rest = "[example_result_1, example_result_1]", THEN conjunct1, THEN mp, OF a]
  note inst_c = classification_merge_checks [where r = example_classification_repairer
      and input_str = "''ab ab ab ab''"
      and preds = "[0, 0, 0, 2, 0, 0, 2, 0, 0]"
      and lgts = "[[1, 0, 0], [1, 0, 0], [1, 0, 0], [1, 0, 0], [1, 0, 0], [1, 0, 0],
                   [1, 0, 0], [1, 0, 0], [1, 0, 0]]"
      and rest = "[example_result_unfilled]" and C = 3
      and mp' = "[0, 0, 2, 0, 0, 2, 0, - 1, 2, 0, 0]"
      and ml' = "[[1, 0, 0], [1, 0, 0], [1, 0, 0], [1, 0, 0], [1, 0, 0], [1, 0, 0], [1, 0, 0],
              [1, 0, 0], [1, 0, 0], [1, 0, 0], [1, 0, 0]]", THEN conjunct1, THEN mp, OF c]
  note inst_b = classification_merge_checks [where r = example_classification_repairer
      and input_str = "''ab ab ab ab''"
      and preds = "[0, 0, 0, 2, 0, 0, 2, 0, 0]"
      and lgts = "[[1, 0, 0], [1, 0, 0], [1, 0, 0], [1, 0, 0], [1, 0, 0], [1, 0, 0],
                   [1, 0, 0], [1, 0, 0], [1, 0, 0]]"
      and rest = "[example_result_1]" and p = 6 and planner = gapped_planner
      and input_idx = 0 and start_slots = Map.empty]
  have single: "merge_inference_results example_classification_repairer [example_result_0]
      ''ab ab ab ab'' = Inr example_result_0"
    using inst_b [THEN conjunct2, THEN conjunct1] by (simp only: example_result_0_def)
  have short: "snd (plan_loop example_classification_repairer [(0, ''abababa'')] (Map.empty, []))
       = [(0, 0, 7, 0)]"
    using classification_merge_checks [where r = example_classification_repairer
        and input_str = "''abababa''" and input_idx = 0 and start_slots = Map.empty,
        THEN conjunct2, THEN conjunct2, THEN conjunct1]
    by (simp add: example_classification_geometry)
  have long: "length (snd (plan_loop example_classification_repairer [(0, ''ab ab ab ab'')]
                     (Map.empty, []))) = 2"
    using inst_b [THEN conjunct2, THEN conjunct2, THEN conjunct2]
    by (simp add: geo)
  have one: "merge_inference_results example_classification_repairer
     [example_result_0, example_result_1, example_result_1] ''ab ab ab ab'' = Inl AssertionError"
    using inst_a by (simp add: geo example_result_0_def)
  have prem: "length (SequenceClassificationInferenceResult [0, 0, 0, 2, 0, 0, 2, 0, 0]
          [[1, 0, 0], [1, 0, 0], [1, 0, 0], [1, 0, 0], [1, 0, 0], [1, 0, 0],
           [1, 0, 0], [1, 0, 0], [1, 0, 0]] # [example_result_unfilled])
        = length (sliding_windows (length ''ab ab ab ab'')
                    (window_size example_classification_repairer))
      \<and> num_classes (SequenceClassificationInferenceResult [0, 0, 0, 2, 0, 0, 2, 0, 0]
          [[1, 0, 0], [1, 0, 0], [1, 0, 0], [1, 0, 0], [1, 0, 0], [1, 0, 0],
           [1, 0, 0], [1, 0, 0], [1, 0, 0]] # [example_result_unfilled]) = Inr 3
      \<and> merge_classification_loop (window_size example_classification_repairer)
            (context_size example_classification_repairer) 3 0
            (zip (SequenceClassificationInferenceResult [0, 0, 0, 2, 0, 0, 2, 0, 0]
                    [[1, 0, 0], [1, 0, 0], [1, 0, 0], [1, 0, 0], [1, 0, 0], [1, 0, 0],
                     [1, 0, 0], [1, 0, 0], [1, 0, 0]] # [example_result_unfilled])
               (sliding_windows (length ''ab ab ab ab'')
                  (window_size example_classification_repairer)))
            (replicate (length ''ab ab ab ab'') (- 1),
             replicate (length ''ab ab ab ab'') (replicate 3 0))
          = Inr ([0, 0, 2, 0, 0, 2, 0, - 1, 2, 0, 0],
                 [[1, 0, 0], [1, 0, 0], [1, 0, 0], [1, 0, 0], [1, 0, 0], [1, 0, 0],
                  [1, 0, 0], [1, 0, 0], [1, 0, 0], [1, 0, 0], [1, 0, 0]])
      \<and> - 1 \<in> set [0, 0, 2, 0, 0, 2, 0, - 1, 2, 0, 0 :: int]"
    by (simp add: geo example_result_unfilled_def classification_merge_defs)
  have "merge_inference_results example_classification_repairer
        (SequenceClassificationInferenceResult [0, 0, 0, 2, 0, 0, 2, 0, 0]
          [[1, 0, 0], [1, 0, 0], [1, 0, 0], [1, 0, 0], [1, 0, 0], [1, 0, 0],
           [1, 0, 0], [1, 0, 0], [1, 0, 0]] # [example_result_unfilled]) ''ab ab ab ab''
      = Inl AssertionError"
    using inst_c prem
    by blast
  then have three: "merge_inference_results example_classification_repairer
        [example_result_0, example_result_unfilled] ''ab ab ab ab'' = Inl AssertionError"
    by (simp add: example_result_0_def)
  have prem4: "6 < length ''ab ab ab ab''
      \<and> last_writer (window_size example_classification_repairer) (length ''ab ab ab ab'') 6
           (enumerate 0
              (zip (SequenceClassificationInferenceResult [0, 0, 0, 2, 0, 0, 2, 0, 0]
                      [[1, 0, 0], [1, 0, 0], [1, 0, 0], [1, 0, 0], [1, 0, 0], [1, 0, 0],
                       [1, 0, 0], [1, 0, 0], [1, 0, 0]] # [example_result_1])
                 (gapped_planner (length ''ab ab ab ab'')
                    (window_size example_classification_repairer)))) = None"
    by (simp add: geo last_writer_def covers_def gapped_planner_def)
  have "isl (merge_inference_results_with gapped_planner example_classification_repairer
        (SequenceClassificationInferenceResult [0, 0, 0, 2, 0, 0, 2, 0, 0]
           [[1, 0, 0], [1, 0, 0], [1, 0, 0], [1, 0, 0], [1, 0, 0], [1, 0, 0],
            [1, 0, 0], [1, 0, 0], [1, 0, 0]] # [example_result_1]) ''ab ab ab ab'')"
    using inst_b [THEN conjunct1, THEN mp, OF b] prem4
    by blast
  then have four: "isl (merge_inference_results_with gapped_planner
        example_classification_repairer [example_result_0, example_result_1] ''ab ab ab ab'')"
    by (simp add: example_result_0_def)
  from one three four gap example_merge single short long show ?thesis by simp
qed

text \<open>The claim as stated fails. For an input of length 11, for which two windows are
  planned and counted, a single received result is returned unchanged, with its label
  \<open>-1\<close>. For an input of length 7, for which the planning loop plans one window, two
  received results are merged and returned, because the merger counts two windows.\<close>

theorem classification_merge_checks_counterexample:
  "merge_inference_results example_classification_repairer
     [SequenceClassificationInferenceResult [0, - 1, 0] [[1, 0, 0], [1, 0, 0], [1, 0, 0]]]
     ''ab ab ab ab''
     = Inr (SequenceClassificationInferenceResult [0, - 1, 0] [[1, 0, 0], [1, 0, 0], [1, 0, 0]])
   \<and> length [SequenceClassificationInferenceResult [0, - 1, 0]
                [[1, 0, 0], [1, 0, 0], [1, 0, 0]]] = 1
   \<and> length (sliding_windows (length ''ab ab ab ab'')
                (window_size example_classification_repairer)) = 2
   \<and> length (snd (plan_loop example_classification_repairer [(0, ''ab ab ab ab'')]
                     (Map.empty, []))) = 2
   \<and> - 1 \<in> set [0, - 1, 0 :: int]
   \<and> snd (plan_loop example_classification_repairer [(0, ''abababa'')] (Map.empty, []))
       = [(0, 0, 7, 0)]
   \<and> length [example_result_0, example_result_short] = 2
   \<and> merge_inference_results example_classification_repairer
        [example_result_0, example_result_short] ''abababa''
       = Inr (SequenceClassificationInferenceResult [0, 0, 0, 2, 0, 0, 2, 1, 0]
                [[0, 0, 0], [1, 0, 0], [1, 0, 0], [1, 0, 0], [1, 0, 0], [1, 0, 0], [1, 0, 0],
                 [1, 0, 0], [0, 0, 0]])"
proof -
  have sw7: "sliding_windows (length ''abababa'') 6 = [0, 6]"
    by (simp add: sliding_windows_def range_step_def upt_rec)
  have two: "merge_inference_results example_classification_repairer
        [example_result_0, example_result_short] ''abababa''
       = Inr (SequenceClassificationInferenceResult [0, 0, 0, 2, 0, 0, 2, 1, 0]
                [[0, 0, 0], [1, 0, 0], [1, 0, 0], [1, 0, 0], [1, 0, 0], [1, 0, 0], [1, 0, 0],
                 [1, 0, 0], [0, 0, 0]])"
    by (simp add: example_result_0_def example_result_short_def classification_merge_defs
        example_classification_geometry sw7 [simplified])
  have one: "merge_inference_results example_classification_repairer
     [SequenceClassificationInferenceResult [0, - 1, 0] [[1, 0, 0], [1, 0, 0], [1, 0, 0]]]
     ''ab ab ab ab''
     = Inr (SequenceClassificationInferenceResult [0, - 1, 0] [[1, 0, 0], [1, 0, 0], [1, 0, 0]])"
    by (simp add: merge_inference_results_def merge_inference_results_with_def)
  from one two show ?thesis
    by (simp add: example_classification_geometry example_sliding_windows [simplified])
qed

subsection \<open>Routing results back to their slots\<close>

lemma store_results_append:
  "store_results (xs @ ys) st
   = (case store_results xs st of Inl e \<Rightarrow> Inl e | Inr st' \<Rightarrow> store_results ys st')"
proof (induction xs arbitrary: st)
  case Nil
  then show ?case by simp
next
  case (Cons x xs)
  obtain i a b p v where x: "x = ((i, a, b, p), v)" by (cases x) auto
  show ?case
  proof (cases "st i")
    case None
    then show ?thesis by (simp add: x)
  next
    case (Some slots)
    show ?thesis
    proof (cases "p < length slots")
      case True
      have "store_results ((x # xs) @ ys) st
          = store_results (xs @ ys) (st(i \<mapsto> slots[p := v]))"
        using Some True by (simp add: x)
      also have "\<dots> = (case store_results xs (st(i \<mapsto> slots[p := v])) of
                          Inl e \<Rightarrow> Inl e | Inr st' \<Rightarrow> store_results ys st')"
        by (rule Cons.IH)
      also have "store_results xs (st(i \<mapsto> slots[p := v])) = store_results (x # xs) st"
        using Some True by (simp add: x)
      finally show ?thesis .
    next
      case False
      with Some show ?thesis by (simp add: x)
    qed
  qed
qed

lemma routed_result_Nil: "routed_result g [] k = None"
  by (simp add: routed_result_def)

lemma routed_result_Cons:
  "routed_result g ((i, a, b, p) # es) k
   = (case routed_result g es k of
        None \<Rightarrow> (if k = (i, p) then Some (g (i, a, b, p)) else None)
      | Some v \<Rightarrow> Some v)"
  by (simp add: routed_result_def entry_key_def map_add_def split: option.splits)

lemma routed_Nil: "routed g [] st = st"
proof
  fix i
  show "routed g [] st i = st i"
    by (cases "st i") (simp_all add: routed_def routed_result_Nil map_nth)
qed

lemma routed_Cons:
  assumes st: "st i = Some slots" and p: "p < length slots"
  shows "routed g es (st(i \<mapsto> slots[p := g (i, a, b, p)])) = routed g ((i, a, b, p) # es) st"
proof
  fix j
  show "routed g es (st(i \<mapsto> slots[p := g (i, a, b, p)])) j = routed g ((i, a, b, p) # es) st j"
  proof (cases "j = i")
    case False
    then have "routed_result g ((i, a, b, p) # es) (j, q) = routed_result g es (j, q)" for q
      by (simp add: routed_result_Cons split: option.splits)
    with False show ?thesis
      by (cases "st j") (simp_all add: routed_def)
  next
    case True
    have "(case routed_result g es (i, q) of
             None \<Rightarrow> slots[p := g (i, a, b, p)] ! q | Some v \<Rightarrow> v)
        = (case routed_result g ((i, a, b, p) # es) (i, q) of
             None \<Rightarrow> slots ! q | Some v \<Rightarrow> v)"
      if "q < length slots" for q
      using that p
      by (cases "routed_result g es (i, q)") (simp_all add: routed_result_Cons nth_list_update)
    then have "map (\<lambda>q. case routed_result g es (i, q) of
                          None \<Rightarrow> slots[p := g (i, a, b, p)] ! q | Some v \<Rightarrow> v)
                 [0 ..< length slots]
        = map (\<lambda>q. case routed_result g ((i, a, b, p) # es) (i, q) of
                          None \<Rightarrow> slots ! q | Some v \<Rightarrow> v) [0 ..< length slots]"
      by (intro map_cong) simp_all
    with True st show ?thesis
      by (simp add: routed_def)
  qed
qed

lemma valid_entries_update:
  assumes "valid_entries es st" "st i = Some slots"
  shows "valid_entries es (st(i \<mapsto> slots[p := v]))"
  using assms
  by (auto simp: valid_entries_def list_all_iff split: option.splits)

lemma store_results_routed:
  "valid_entries es st \<Longrightarrow>
     store_results (map (\<lambda>e. (e, g e)) es) st = Inr (routed g es st)"
proof (induction es arbitrary: st)
  case Nil
  then show ?case by (simp add: routed_Nil)
next
  case (Cons e es)
  obtain i a b p where e: "e = (i, a, b, p)" by (cases e) auto
  from Cons.prems obtain slots where
    st: "st i = Some slots" and p: "p < length slots" and rest: "valid_entries es st"
    by (auto simp: valid_entries_def e entry_key_def split: option.splits)
  have "store_results (map (\<lambda>e. (e, g e)) (e # es)) st
      = store_results (map (\<lambda>e. (e, g e)) es) (st(i \<mapsto> slots[p := g (i, a, b, p)]))"
    using st p by (simp add: e)
  also have "\<dots> = Inr (routed g es (st(i \<mapsto> slots[p := g (i, a, b, p)])))"
    by (rule Cons.IH) (rule valid_entries_update [OF rest st])
  also have "\<dots> = Inr (routed g (e # es) st)"
    using routed_Cons [of st i slots p g es a b, OF st p] by (simp only: e)
  finally show ?case .
qed

lemma routed_permutation:
  assumes "distinct (map entry_key es)" "distinct (map entry_key es')" "set es = set es'"
  shows "routed g es st = routed g es' st"
proof -
  let ?kv = "\<lambda>es. rev (map (\<lambda>e. (entry_key e, g e)) es)"
  have d: "distinct (map fst (?kv es))" "distinct (map fst (?kv es'))"
    using assms(1,2) by (simp_all add: rev_map [symmetric] comp_def)
  have "set (?kv es) = set (?kv es')"
    using assms(3) by simp
  with d have "map_of (?kv es) = map_of (?kv es')"
    using map_of_inject_set by blast
  then have "routed_result g es = routed_result g es'"
    by (simp add: routed_result_def fun_eq_iff)
  then show ?thesis
    by (simp only: routed_def)
qed

subsection \<open>The batch loop routes every planned entry\<close>

lemma collect_all_Inr:
  "(\<And>x. x \<in> set xs \<Longrightarrow> h x = Inr (g x)) \<Longrightarrow> collect h xs = Inr (map g xs)"
  by (induction xs) simp_all

lemma zip_map_self: "zip xs (map h xs) = map (\<lambda>x. (x, h x)) xs"
  by (induction xs) simp_all

lemma batch_sequences_of_entries:
  assumes "list_all (\<lambda>e. fst (entry_key e) < length inputs) batch"
  shows "batch_sequences_of inputs batch = Inr (map (entry_sequence inputs) batch)"
  unfolding batch_sequences_of_def
proof (rule collect_all_Inr)
  fix e assume "e \<in> set batch"
  with assms have "fst (entry_key e) < length inputs"
    by (simp add: list_all_iff)
  then show "(case e of (input_idx, from_idx, to_idx, position) \<Rightarrow>
               case py_get inputs input_idx of
                 Inl e \<Rightarrow> Inl e
               | Inr ipt \<Rightarrow> Inr (slice ipt from_idx to_idx)) = Inr (entry_sequence inputs e)"
    by (cases e) (simp add: entry_key_def entry_sequence_def py_get_def)
qed

lemma process_batch_routes:
  assumes "answers_each_sequence r f"
    and "list_all (\<lambda>e. fst (entry_key e) < length inputs) batch"
  shows "process_batch r inputs batch st
         = store_results (map (\<lambda>e. (e, f (entry_sequence inputs e))) batch) st"
proof -
  have "inference r (map (entry_sequence inputs) batch)
          (batch_kwargs r batch (map (entry_sequence inputs) batch))
        = map f (map (entry_sequence inputs) batch)"
    using assms(1) by (simp add: answers_each_sequence_def)
  then show ?thesis
    by (simp add: process_batch_def batch_sequences_of_entries [OF assms(2)]
        zip_map_self [of batch "\<lambda>e. f (entry_sequence inputs e)"] comp_def)
qed

lemma list_all_slice: "list_all P xs \<Longrightarrow> list_all P (slice xs a b)"
  by (auto simp: slice_def list_all_iff dest: in_set_takeD in_set_dropD)

lemma batch_loop_routes:
  assumes "answers_each_sequence r f"
    and "list_all (\<lambda>e. fst (entry_key e) < length inputs) es"
  shows "batch_loop r inputs es b starts st
         = store_results
             (map (\<lambda>e. (e, f (entry_sequence inputs e)))
                (concat (map (\<lambda>i. slice es i (i + b)) starts))) st"
proof (induction starts arbitrary: st)
  case Nil
  then show ?case by simp
next
  case (Cons i starts)
  have "process_batch r inputs (slice es i (i + b)) st
      = store_results (map (\<lambda>e. (e, f (entry_sequence inputs e))) (slice es i (i + b))) st"
    by (rule process_batch_routes [OF assms(1) list_all_slice [OF assms(2)]])
  then show ?case
    by (simp add: Cons.IH store_results_append split: sum.splits)
qed

lemma chunks_take:
  "concat (map (\<lambda>k. slice es (k * b) (k * b + b)) [0 ..< m]) = take (m * b) es"
proof (induction m)
  case 0
  then show ?case by simp
next
  case (Suc m)
  have "take (m * b) es @ slice es (m * b) (m * b + b) = take (m * b + b) es"
    by (simp add: slice_def take_add)
  with Suc show ?case by (simp add: add.commute)
qed

lemma chunks_concat:
  assumes "0 < b"
  shows "concat (map (\<lambda>i. slice es i (i + b)) (range_step (length es) b)) = es"
proof -
  have "concat (map (\<lambda>i. slice es i (i + b)) (range_step (length es) b))
      = concat (map (\<lambda>k. slice es (k * b) (k * b + b)) [0 ..< (length es + b - 1) div b])"
    by (simp add: range_step_def comp_def)
  also have "\<dots> = take (((length es + b - 1) div b) * b) es"
    by (rule chunks_take)
  also have "\<dots> = es"
    using range_step_cover [OF assms, of "length es"] by simp
  finally show ?thesis .
qed

subsection \<open>The plan: entries, slots and keys\<close>

lemma window_entries_keys:
  "map entry_key (window_entries r i ipt) = map (Pair i) [0 ..< length (window_entries r i ipt)]"
proof (cases "length ipt \<le> max_length r")
  case True
  then show ?thesis by (simp add: window_entries_def entry_key_def)
next
  case False
  let ?sw = "sliding_windows (length ipt) (window_size r)"
  have "map entry_key (window_entries r i ipt) = map (\<lambda>(j, w). (i, j)) (enumerate 0 ?sw)"
    using False by (simp add: window_entries_def entry_key_def comp_def case_prod_unfold)
  also have "\<dots> = map (Pair i) (map fst (enumerate 0 ?sw))"
    by (simp only: map_map comp_def case_prod_unfold)
  also have "map fst (enumerate 0 ?sw) = [0 ..< length ?sw]"
    by (simp only: map_fst_enumerate) simp
  finally show ?thesis using False by (simp add: window_entries_def)
qed

lemma window_entries_key:
  assumes "e \<in> set (window_entries r i ipt)"
  shows "fst (entry_key e) = i \<and> snd (entry_key e) < length (window_entries r i ipt)"
proof -
  from assms have "entry_key e \<in> set (map entry_key (window_entries r i ipt))"
    by simp
  then show ?thesis
    by (simp only: window_entries_keys) auto
qed

lemma plan_loop_step:
  "plan_loop r ((i, ipt) # rest) (st, bs)
   = plan_loop r rest
       (st(i \<mapsto> replicate (length (window_entries r i ipt)) NoneResult),
        bs @ window_entries r i ipt)"
  by (simp add: window_entries_def Let_def)

lemma plan_loop_enumerate:
  "plan_loop r (enumerate k inputs) (st, bs)
   = (\<lambda>i. if k \<le> i \<and> i < k + length inputs
          then Some (replicate (length (window_entries r i (inputs ! (i - k)))) NoneResult)
          else st i,
      bs @ concat (map (\<lambda>(i, ipt). window_entries r i ipt) (enumerate k inputs)))"
proof (induction inputs arbitrary: k st bs)
  case Nil
  have "(\<lambda>i. if k \<le> i \<and> i < k + length ([] :: string list)
          then Some (replicate (length (window_entries r i ([] ! (i - k)))) NoneResult)
          else st i) = st"
    by (rule ext) auto
  then show ?case by simp
next
  case (Cons x xs)
  have "plan_loop r (enumerate k (x # xs)) (st, bs)
      = plan_loop r (enumerate (Suc k) xs)
          (st(k \<mapsto> replicate (length (window_entries r k x)) NoneResult),
           bs @ window_entries r k x)"
    by (simp only: enumerate_simps plan_loop_step)
  also have "\<dots> = (\<lambda>i. if Suc k \<le> i \<and> i < Suc k + length xs
          then Some (replicate (length (window_entries r i (xs ! (i - Suc k)))) NoneResult)
          else (st(k \<mapsto> replicate (length (window_entries r k x)) NoneResult)) i,
      (bs @ window_entries r k x)
        @ concat (map (\<lambda>(i, ipt). window_entries r i ipt) (enumerate (Suc k) xs)))"
    by (rule Cons.IH)
  also have "(\<lambda>i. if Suc k \<le> i \<and> i < Suc k + length xs
          then Some (replicate (length (window_entries r i (xs ! (i - Suc k)))) NoneResult)
          else (st(k \<mapsto> replicate (length (window_entries r k x)) NoneResult)) i)
      = (\<lambda>i. if k \<le> i \<and> i < k + length (x # xs)
          then Some (replicate (length (window_entries r i ((x # xs) ! (i - k)))) NoneResult)
          else st i)"
  proof
    fix i
    consider "i < k" | "i = k" | "k < i" by linarith
    then show "(if Suc k \<le> i \<and> i < Suc k + length xs
          then Some (replicate (length (window_entries r i (xs ! (i - Suc k)))) NoneResult)
          else (st(k \<mapsto> replicate (length (window_entries r k x)) NoneResult)) i)
      = (if k \<le> i \<and> i < k + length (x # xs)
          then Some (replicate (length (window_entries r i ((x # xs) ! (i - k)))) NoneResult)
          else st i)"
    proof cases
      case 1
      then show ?thesis by simp
    next
      case 2
      then show ?thesis by simp
    next
      case 3
      then have "i - k = Suc (i - Suc k)" by simp
      with 3 show ?thesis by simp
    qed
  qed
  finally show ?case by simp
qed

lemma planned_entries_range:
  assumes "e \<in> set (concat (map (\<lambda>(i, ipt). window_entries r i ipt) (enumerate k inputs)))"
  shows "k \<le> fst (entry_key e) \<and> fst (entry_key e) < k + length inputs
     \<and> snd (entry_key e)
         < length (window_entries r (fst (entry_key e)) (inputs ! (fst (entry_key e) - k)))"
proof -
  from assms obtain i ipt where m: "(i, ipt) \<in> set (enumerate k inputs)"
    and e: "e \<in> set (window_entries r i ipt)"
    by auto
  from m have "k \<le> i" "i < length inputs + k" "inputs ! (i - k) = ipt"
    by (simp_all add: in_set_enumerate_eq)
  with window_entries_key [OF e] show ?thesis by simp
qed

lemma planned_entries_distinct:
  "distinct (map entry_key
     (concat (map (\<lambda>(i, ipt). window_entries r i ipt) (enumerate k inputs))))"
proof (induction inputs arbitrary: k)
  case Nil
  then show ?case by simp
next
  case (Cons x xs)
  let ?rest = "concat (map (\<lambda>(i, ipt). window_entries r i ipt) (enumerate (Suc k) xs))"
  have d1: "distinct (map entry_key (window_entries r k x))"
    by (simp only: window_entries_keys) (simp add: distinct_map inj_on_def)
  have disj: "set (map entry_key (window_entries r k x)) \<inter> set (map entry_key ?rest) = {}"
  proof (rule ccontr)
    assume "set (map entry_key (window_entries r k x)) \<inter> set (map entry_key ?rest) \<noteq> {}"
    then obtain ky where "ky \<in> entry_key ` set (window_entries r k x)"
      and "ky \<in> entry_key ` set ?rest"
      unfolding set_map by blast
    then obtain a b where a: "a \<in> set (window_entries r k x)" and b: "b \<in> set ?rest"
      and eq: "entry_key a = entry_key b"
      by blast
    from window_entries_key [OF a] have "fst (entry_key a) = k" by simp
    moreover from planned_entries_range [OF b] have "Suc k \<le> fst (entry_key b)" by simp
    ultimately show False using eq by simp
  qed
  from d1 Cons.IH [of "Suc k"] disj show ?case
    by (simp only: enumerate_simps list.map concat.simps map_append distinct_append
        prod.case)
qed

lemma plan_loop_planned:
  "plan_loop r (enumerate 0 inputs) (Map.empty, [])
   = (empty_slots r inputs, planned_entries r inputs)"
proof -
  have "(\<lambda>i. if 0 \<le> i \<and> i < 0 + length inputs
          then Some (replicate (length (window_entries r i (inputs ! (i - 0)))) NoneResult)
          else Map.empty i) = empty_slots r inputs"
    by (rule ext) (simp add: empty_slots_def)
  then show ?thesis
    by (simp only: plan_loop_enumerate planned_entries_def append_Nil)
qed

lemma planned_entries_valid:
  "valid_entries (planned_entries r inputs) (empty_slots r inputs)"
  unfolding valid_entries_def list_all_iff
proof
  fix e assume "e \<in> set (planned_entries r inputs)"
  from planned_entries_range [OF this [unfolded planned_entries_def]]
  show "case empty_slots r inputs (fst (entry_key e)) of
          None \<Rightarrow> False
        | Some slots \<Rightarrow> snd (entry_key e) < length slots"
    by (simp add: empty_slots_def)
qed

lemma planned_entries_in_range:
  "list_all (\<lambda>e. fst (entry_key e) < length inputs) (planned_entries r inputs)"
  unfolding list_all_iff
proof
  fix e assume "e \<in> set (planned_entries r inputs)"
  from planned_entries_range [OF this [unfolded planned_entries_def]]
  show "fst (entry_key e) < length inputs" by simp
qed

lemma sort_batches_set: "set (sort_batches es) = set es"
  by (simp add: sort_batches_def)

lemma sort_batches_distinct_keys:
  "distinct (map entry_key (sort_batches es)) = distinct (map entry_key es)"
  by (simp add: sort_batches_def distinct_map)

lemma batch_loop_all:
  assumes ans: "answers_each_sequence r f" and b: "0 < b"
    and same: "set es = set (planned_entries r inputs)"
    and dist: "distinct (map entry_key es)"
  shows "batch_loop r inputs es b (range_step (length es) b) (empty_slots r inputs)
         = Inr (routed_slots r f inputs)"
proof -
  let ?g = "\<lambda>e. f (entry_sequence inputs e)"
  have inr: "list_all (\<lambda>e. fst (entry_key e) < length inputs) es"
    using planned_entries_in_range [of inputs r] same by (simp add: list_all_iff)
  have valid: "valid_entries es (empty_slots r inputs)"
    using planned_entries_valid [of r inputs] same by (simp add: valid_entries_def list_all_iff)
  have "batch_loop r inputs es b (range_step (length es) b) (empty_slots r inputs)
      = store_results (map (\<lambda>e. (e, ?g e))
          (concat (map (\<lambda>i. slice es i (i + b)) (range_step (length es) b))))
          (empty_slots r inputs)"
    by (rule batch_loop_routes [OF ans inr])
  also have "\<dots> = store_results (map (\<lambda>e. (e, ?g e)) es) (empty_slots r inputs)"
    by (simp only: chunks_concat [OF b])
  also have "\<dots> = Inr (routed ?g es (empty_slots r inputs))"
    by (rule store_results_routed [OF valid])
  also have "routed ?g es (empty_slots r inputs)
      = routed ?g (planned_entries r inputs) (empty_slots r inputs)"
    using planned_entries_distinct [of r 0 inputs]
    by (intro routed_permutation dist same) (simp add: planned_entries_def)
  finally show ?thesis by (simp only: routed_slots_def)
qed

lemma repair_text_raw_routed:
  assumes ans: "answers_each_sequence r f" and b: "0 < batch_size"
  shows "repair_text_raw r inputs batch_size sort_by_length
     = collect (\<lambda>i. case routed_slots r f inputs i of
                      None \<Rightarrow> Inl KeyError
                    | Some irs \<Rightarrow>
                        (case py_get inputs i of
                           Inl e \<Rightarrow> Inl e
                         | Inr ipt \<Rightarrow> merge_inference_results r irs ipt))
         [0 ..< length inputs]"
proof -
  define es where "es = (if sort_by_length then sort_batches (planned_entries r inputs)
                         else planned_entries r inputs)"
  have same: "set es = set (planned_entries r inputs)"
    by (simp add: es_def sort_batches_set)
  have dist: "distinct (map entry_key es)"
    using planned_entries_distinct [of r 0 inputs]
    by (simp add: es_def sort_batches_distinct_keys planned_entries_def)
  have nb: "0 < nat batch_size" using b by simp
  have starts: "batch_starts (length es) batch_size = Inr (range_step (length es) (nat batch_size))"
    using b by (simp add: batch_starts_def)
  note loop = batch_loop_all [OF ans nb same dist]
  show ?thesis
    unfolding repair_text_raw_def plan_loop_planned
    by (simp only: prod.case Let_def es_def [symmetric] starts loop sum.case)
qed

lemma window_entries_nth_key:
  assumes "p < length (window_entries r i ipt)"
  shows "entry_key (window_entries r i ipt ! p) = (i, p)"
proof -
  have "entry_key (window_entries r i ipt ! p) = map entry_key (window_entries r i ipt) ! p"
    using assms by simp
  also have "\<dots> = map (Pair i) [0 ..< length (window_entries r i ipt)] ! p"
    by (simp only: window_entries_keys)
  also have "\<dots> = (i, p)"
    using assms by simp
  finally show ?thesis .
qed

lemma routed_result_planned:
  assumes i: "i < length inputs" and p: "p < length (window_entries r i (inputs ! i))"
  shows "routed_result g (planned_entries r inputs) (i, p)
         = Some (g (window_entries r i (inputs ! i) ! p))"
proof -
  let ?e = "window_entries r i (inputs ! i) ! p"
  let ?kv = "rev (map (\<lambda>e. (entry_key e, g e)) (planned_entries r inputs))"
  have "(i, inputs ! i) \<in> set (enumerate 0 inputs)"
    using i by (simp add: in_set_enumerate_eq)
  moreover have "?e \<in> set (window_entries r i (inputs ! i))"
    using p by simp
  ultimately have "?e \<in> set (planned_entries r inputs)"
    unfolding planned_entries_def set_concat set_map by blast
  then have "(entry_key ?e, g ?e) \<in> (\<lambda>e. (entry_key e, g e)) ` set (planned_entries r inputs)"
    by (rule imageI)
  then have mem: "((i, p), g ?e) \<in> set ?kv"
    by (simp only: window_entries_nth_key [OF p] set_rev set_map)
  have "distinct (map fst ?kv)"
    using planned_entries_distinct [of r 0 inputs]
    by (simp add: rev_map [symmetric] comp_def planned_entries_def)
  from map_of_is_SomeI [OF this mem] show ?thesis
    by (simp only: routed_result_def)
qed

lemma routed_slots_content:
  assumes "i < length inputs"
  shows "routed_slots r f inputs i
         = Some (map (\<lambda>e. f (entry_sequence inputs e)) (window_entries r i (inputs ! i)))"
proof -
  let ?g = "\<lambda>e. f (entry_sequence inputs e)"
  let ?we = "window_entries r i (inputs ! i)"
  have "map (\<lambda>p. case routed_result ?g (planned_entries r inputs) (i, p) of
                    None \<Rightarrow> replicate (length ?we) NoneResult ! p
                  | Some v \<Rightarrow> v) [0 ..< length ?we]
      = map (\<lambda>p. ?g (?we ! p)) [0 ..< length ?we]"
    by (rule map_cong) (simp_all add: routed_result_planned [OF assms])
  also have "\<dots> = map ?g (map (nth ?we) [0 ..< length ?we])"
    by (simp only: map_map comp_def)
  also have "\<dots> = map ?g ?we"
    by (simp only: map_nth)
  finally show ?thesis
    using assms by (simp add: routed_slots_def routed_def empty_slots_def)
qed

lemma collect_cong:
  "(\<And>x. x \<in> set xs \<Longrightarrow> h x = h' x) \<Longrightarrow> collect h xs = collect h' xs"
  by (induction xs) (simp_all split: sum.splits)

lemma example_generation_answers:
  "answers_each_sequence example_generation_repairer example_generation_answer"
  by (simp add: answers_each_sequence_def example_generation_repairer_def init_def
      example_generation_adapter_def example_generation_answer_def)

lemma example_plan:
  "plan_loop example_generation_repairer (enumerate 0 [''a b'', ''ab ab ab ab'']) (Map.empty, [])
   = ([0 \<mapsto> [NoneResult], 1 \<mapsto> [NoneResult, NoneResult]],
      [(0, 0, 3, 0), (1, 0, 7, 0), (1, 5, 11, 1)])"
  by (simp add: example_generation_geometry sliding_windows_def range_step_def upt_rec)

lemma example_sorted:
  "sort_batches [(0, 0, 3, 0), (1, 0, 7, 0), (1, 5, 11, 1)]
   = [(1, 0, 7, 0), (1, 5, 11, 1), (0, 0, 3, 0)]"
  by (simp add: sort_batches_def)

lemma example_run:
  "repair_text example_generation_repairer (PyList [PyStr ''a b'', PyStr ''ab ab ab ab'']) 2 True
   = Inr (PyList [PyStr ''a b'', PyStr ''ab ab ab ab''])"
  by (simp add: example_defs engine_defs upt_rec sliding_windows_def merge_generation_def
      window_slice_def py_slice_def py_index_def)

text \<open>
  Claim C8, as amended. For an adapter that answers every substring by a function of that
  substring alone, in the order of the batch, and for any two positive batch sizes and any
  two values of the sort flag, \<open>repair_text\<close> gives the same outcome (the same output, or
  the same exception), and so does \<open>_repair_text_raw\<close>: its outcome is, input by input,
  the merge of the adapter's answers to the windows of that input in window-position
  order, whatever the batches were.
\<close>

theorem batch_dispatch_order_irrelevant:
  assumes "answers_each_sequence r f" and "0 < batch_size" and "0 < batch_size'"
  shows "repair_text r inputs batch_size sort_by_length
           = repair_text r inputs batch_size' sort_by_length'
     \<and> repair_text_raw r cleaned batch_size sort_by_length
           = repair_text_raw r cleaned batch_size' sort_by_length'
     \<and> repair_text_raw r cleaned batch_size sort_by_length
           = collect (\<lambda>i. merge_inference_results r
                             (map (\<lambda>e. f (entry_sequence cleaned e))
                                (window_entries r i (cleaned ! i)))
                             (cleaned ! i))
               [0 ..< length cleaned]"
proof -
  have raw: "repair_text_raw r xs b s
      = collect (\<lambda>i. merge_inference_results r
                        (map (\<lambda>e. f (entry_sequence xs e)) (window_entries r i (xs ! i)))
                        (xs ! i))
          [0 ..< length xs]"
    if "0 < b" for xs b s
  proof -
    have "repair_text_raw r xs b s
      = collect (\<lambda>i. case routed_slots r f xs i of
                      None \<Rightarrow> Inl KeyError
                    | Some irs \<Rightarrow>
                        (case py_get xs i of
                           Inl e \<Rightarrow> Inl e
                         | Inr ipt \<Rightarrow> merge_inference_results r irs ipt))
         [0 ..< length xs]"
      by (rule repair_text_raw_routed [OF assms(1) that])
    also have "\<dots> = collect (\<lambda>i. merge_inference_results r
                        (map (\<lambda>e. f (entry_sequence xs e)) (window_entries r i (xs ! i)))
                        (xs ! i))
          [0 ..< length xs]"
      by (rule collect_cong) (simp add: routed_slots_content py_get_def)
    finally show ?thesis .
  qed
  have same: "repair_text_raw r xs batch_size sort_by_length
      = repair_text_raw r xs batch_size' sort_by_length'" for xs
    by (simp only: raw [OF assms(2)] raw [OF assms(3)])
  have "repair_text r inputs batch_size sort_by_length
      = repair_text r inputs batch_size' sort_by_length'"
    by (simp only: repair_text_def same)
  with same raw [OF assms(2)] show ?thesis by simp
qed

theorem batch_dispatch_order_irrelevant_witness:
  "answers_each_sequence example_generation_repairer example_generation_answer
   \<and> (0::int) < 1 \<and> (0::int) < 2
   \<and> sort_batches (snd (plan_loop example_generation_repairer
                            (enumerate 0 [''a b'', ''ab ab ab ab'']) (Map.empty, [])))
       = [(1, 0, 7, 0), (1, 5, 11, 1), (0, 0, 3, 0)]
   \<and> repair_text example_generation_repairer
        (PyList [PyStr ''a b'', PyStr ''ab ab ab ab'']) 2 True
       = Inr (PyList [PyStr ''a b'', PyStr ''ab ab ab ab''])
   \<and> repair_text example_generation_repairer
        (PyList [PyStr ''a b'', PyStr ''ab ab ab ab'']) 1 False
       = Inr (PyList [PyStr ''a b'', PyStr ''ab ab ab ab''])"
proof -
  have b1: "(0::int) < 1" and b2: "(0::int) < 2" by simp_all
  from batch_dispatch_order_irrelevant [OF example_generation_answers b1 b2,
      of "PyList [PyStr ''a b'', PyStr ''ab ab ab ab'']" False True]
  have "repair_text example_generation_repairer
        (PyList [PyStr ''a b'', PyStr ''ab ab ab ab'']) 1 False
      = repair_text example_generation_repairer
        (PyList [PyStr ''a b'', PyStr ''ab ab ab ab'']) 2 True"
    by blast
  with example_run have run1: "repair_text example_generation_repairer
        (PyList [PyStr ''a b'', PyStr ''ab ab ab ab'']) 1 False
      = Inr (PyList [PyStr ''a b'', PyStr ''ab ab ab ab''])"
    by (simp only:)
  have sorted: "sort_batches (snd (plan_loop example_generation_repairer
                            (enumerate 0 [''a b'', ''ab ab ab ab'']) (Map.empty, [])))
      = [(1, 0, 7, 0), (1, 5, 11, 1), (0, 0, 3, 0)]"
    by (simp only: example_plan snd_conv example_sorted)
  from example_generation_answers b1 b2 sorted example_run run1 show ?thesis
    by blast
qed

text \<open>The claim as stated fails. With the same adapter and input the call answers for
  batch size 16, and raises for batch size 0 (the range of batch starts refuses a zero
  step) and for batch size \<open>-1\<close> (no batch is dispatched and the empty result slot cannot
  be rendered). And an adapter that is a function of the batch and answers in batch order,
  but lets an answer depend on how many substrings share the batch, gives different
  outputs for batch sizes 1 and 2.\<close>

theorem batch_dispatch_order_irrelevant_counterexample:
  "answers_each_sequence example_generation_repairer example_generation_answer
   \<and> repair_text example_generation_repairer (PyStr ''ab c'') 16 True = Inr (PyStr ''ab c'')
   \<and> repair_text example_generation_repairer (PyStr ''ab c'') 0 True = Inl ValueError
   \<and> repair_text example_generation_repairer (PyStr ''ab c'') (- 1) True = Inl AttributeError
   \<and> repair_text
        (example_classification_repairer\<lparr>inference := example_batch_dependent_adapter\<rparr>)
        (PyList [PyStr ''a b'', PyStr ''b'']) 1 True
       = Inr (PyList [PyStr ''ab'', PyStr ''b''])
   \<and> repair_text
        (example_classification_repairer\<lparr>inference := example_batch_dependent_adapter\<rparr>)
        (PyList [PyStr ''a b'', PyStr ''b'']) 2 True
       = Inr (PyList [PyStr ''a b'', PyStr ''b''])"
  using example_generation_answers
  by (simp add: example_defs engine_defs upt_rec example_batch_dependent_adapter_def)

end
